theory Spec2Isabelle
  imports Main "HOL-Library.AList"
begin

section \<open>FakeMessageComposer: the channel-scoped reconciliation engine\<close>

text \<open>
  A shallow embedding of \<^verbatim>\<open>src/MessageUtilities.js\<close> (class FakeMessageComposer).
  JavaScript values are a datatype, the plugin instance is a record that every method
  takes and returns, host modules (storage, stores, dispatcher, message actions, timers)
  are an environment record of functions that may be absent and may throw, and every
  throw is the \<open>Inl\<close> branch of a result.
\<close>

subsection \<open>JavaScript values\<close>

text \<open>
  Numbers are only ever tested for truthiness here, so integers stand for them.
  An object is an association list read with \<open>map_of\<close>; object spread is
  \<open>AList.merge\<close> (the later source wins, a key keeps its first position). Objects are
  only ever read by property name here, so the enumeration order of the keys that a
  spread adds is not modelled.
\<close>

datatype jsval =
    JUndefined
  | JNull
  | JBool bool
  | JNum int
  | JStr string
  | JArr "jsval list"
  | JObj "(string \<times> jsval) list"

datatype error = TypeError | SyntaxError | HostError string

fun truthy :: "jsval \<Rightarrow> bool" where
  "truthy JUndefined = False"
| "truthy JNull = False"
| "truthy (JBool b) = b"
| "truthy (JNum n) = (n \<noteq> 0)"
| "truthy (JStr s) = (s \<noteq> [])"
| "truthy (JArr xs) = True"
| "truthy (JObj ps) = True"

fun nullish :: "jsval \<Rightarrow> bool" where
  "nullish JUndefined = True"
| "nullish JNull = True"
| "nullish v = False"

text \<open>\<^verbatim>\<open>a ?? b\<close>\<close>

definition nco :: "jsval \<Rightarrow> jsval \<Rightarrow> jsval" where
  "nco a b = (if nullish a then b else a)"

text \<open>
  \<^verbatim>\<open>v?.k\<close> for a data property \<open>k\<close>: the source reads only the names enabled,
  discordId, messageContent, channelMode, targetChannelId, embeds, label, url, guild_id
  and the user fields, none of which a string, an array or a primitive has.
\<close>

fun get_prop :: "jsval \<Rightarrow> string \<Rightarrow> jsval" where
  "get_prop (JObj ps) k = (case map_of ps k of Some v \<Rightarrow> v | None \<Rightarrow> JUndefined)"
| "get_prop v k = JUndefined"

definition digit_char :: "nat \<Rightarrow> char" where
  "digit_char n = ''0123456789'' ! (n mod 10)"

fun show_nat :: "nat \<Rightarrow> string" where
  "show_nat n = (if n < 10 then [digit_char n] else show_nat (n div 10) @ [digit_char n])"

declare show_nat.simps [simp del]

text \<open>The own enumerable properties that \<^verbatim>\<open>{...v}\<close> copies.\<close>

fun own_props :: "jsval \<Rightarrow> (string \<times> jsval) list" where
  "own_props (JObj ps) = ps"
| "own_props (JArr xs) = map (\<lambda>(i, x). (show_nat i, x)) (enumerate 0 xs)"
| "own_props (JStr s) = map (\<lambda>(i, c). (show_nat i, JStr [c])) (enumerate 0 s)"
| "own_props v = []"

subsection \<open>Strings: trim and the snowflake test\<close>

text \<open>
  Strings are lists of 8-bit code units. \<^verbatim>\<open>String.prototype.trim\<close> strips WhiteSpace
  and LineTerminator code units: in this range TAB, LF, VT, FF, CR, SP and NBSP.
\<close>

definition is_space :: "char \<Rightarrow> bool" where
  "is_space c = (of_char c \<in> {9, 10, 11, 12, 13, 32, 160 :: nat})"

definition trim :: "string \<Rightarrow> string" where
  "trim s = rev (dropWhile is_space (rev (dropWhile is_space s)))"

definition is_digit :: "char \<Rightarrow> bool" where
  "is_digit c = (c \<in> set ''0123456789'')"

text \<open>\<^verbatim>\<open>/^\d{5,}$/.test(s)\<close>: no flags, so \<open>$\<close> is the end of the input.\<close>

definition snowflake_re :: "string \<Rightarrow> bool" where
  "snowflake_re s = (5 \<le> length s \<and> list_all is_digit s)"

fun isSnowflake :: "jsval \<Rightarrow> bool" where
  "isSnowflake (JStr s) = snowflake_re (trim s)"
| "isSnowflake v = False"

text \<open>\<^verbatim>\<open>v?.trim()\<close>: undefined on a nullish receiver, a TypeError on any other non-string.\<close>

fun opt_trim :: "jsval \<Rightarrow> error + jsval" where
  "opt_trim (JStr s) = Inr (JStr (trim s))"
| "opt_trim JUndefined = Inr JUndefined"
| "opt_trim JNull = Inr JUndefined"
| "opt_trim v = Inl TypeError"

subsection \<open>Config Store: defaults and merge\<close>

definition getDefaultConfig :: "jsval" where
  "getDefaultConfig = JObj
     [(''enabled'', JBool True),
      (''discordId'', JStr ''''),
      (''messageContent'', JStr ''This is a local-only fake message.''),
      (''channelMode'', JStr ''any''),
      (''targetChannelId'', JStr ''''),
      (''embeds'', JArr [])]"

definition str_or_empty :: "jsval \<Rightarrow> jsval" where
  "str_or_empty v = (case v of JStr s \<Rightarrow> JStr s | _ \<Rightarrow> JStr '''')"

definition normalizeEmbeds :: "jsval \<Rightarrow> jsval" where
  "normalizeEmbeds candidate =
     (case candidate of
        JArr xs \<Rightarrow> JArr (map (\<lambda>entry. JObj
           [(''label'', str_or_empty (get_prop entry ''label'')),
            (''url'', str_or_empty (get_prop entry ''url''))]) xs)
      | _ \<Rightarrow> JArr [])"

text \<open>
  \<^verbatim>\<open>mergeWithDefaults(configLike = {})\<close>: the default parameter replaces undefined only;
  \<^verbatim>\<open>{...defaults, ...(configLike ?? {}), embeds: normalizeEmbeds(configLike?.embeds ?? [])}\<close>.
\<close>

definition mergeWithDefaults :: "jsval \<Rightarrow> jsval" where
  "mergeWithDefaults configLike0 =
     (let configLike = (if configLike0 = JUndefined then JObj [] else configLike0) in
      JObj (AList.update ''embeds''
              (normalizeEmbeds (nco (get_prop configLike ''embeds'') (JArr [])))
              (AList.merge (own_props getDefaultConfig)
                           (own_props (nco configLike (JObj []))))))"

subsection \<open>Embed links\<close>

record embed_link =
  e_type :: string
  e_title :: string
  e_url :: string
  e_description :: string
  e_color :: nat
  e_footer :: string

text \<open>\<^verbatim>\<open>entry.label?.trim() || entry.url?.trim()\<close> as a truth value.\<close>

definition entry_has_text :: "jsval \<Rightarrow> error + bool" where
  "entry_has_text entry =
     (if \<not> truthy entry then Inr False
      else case opt_trim (get_prop entry ''label'') of
             Inl err \<Rightarrow> Inl err
           | Inr l \<Rightarrow> if truthy l then Inr True
                      else (case opt_trim (get_prop entry ''url'') of
                              Inl err \<Rightarrow> Inl err
                            | Inr u \<Rightarrow> Inr (truthy u)))"

fun filter_entries :: "jsval list \<Rightarrow> error + jsval list" where
  "filter_entries [] = Inr []"
| "filter_entries (x # xs) =
     (case entry_has_text x of
        Inl err \<Rightarrow> Inl err
      | Inr keep \<Rightarrow> (case filter_entries xs of
                       Inl err \<Rightarrow> Inl err
                     | Inr ys \<Rightarrow> Inr (if keep then x # ys else ys)))"

text \<open>The callback of \<^verbatim>\<open>.map((entry, index) => ...)\<close>; None is its \<^verbatim>\<open>null\<close>.\<close>

definition embed_of_entry :: "jsval \<Rightarrow> nat \<Rightarrow> error + embed_link option" where
  "embed_of_entry entry index =
     (case opt_trim (get_prop entry ''label'') of
        Inl err \<Rightarrow> Inl err
      | Inr l \<Rightarrow>
         (case opt_trim (get_prop entry ''url'') of
            Inl err \<Rightarrow> Inl err
          | Inr u \<Rightarrow>
             (case u of
                JStr url \<Rightarrow>
                  if url = [] then Inr None
                  else Inr (Some \<lparr> e_type = ''link'',
                          e_title = (case l of JStr t \<Rightarrow> if t = [] then ''Link '' @ show_nat (index + 1) else t
                                             | _ \<Rightarrow> ''Link '' @ show_nat (index + 1)),
                          e_url = url, e_description = url, e_color = 0x5865f2,
                          e_footer = ''LOCAL PREVIEW ONLY'' \<rparr>)
              | _ \<Rightarrow> Inr None)))"

fun map_entries :: "jsval list \<Rightarrow> nat \<Rightarrow> error + embed_link option list" where
  "map_entries [] index = Inr []"
| "map_entries (x # xs) index =
     (case embed_of_entry x index of
        Inl err \<Rightarrow> Inl err
      | Inr y \<Rightarrow> (case map_entries xs (index + 1) of
                    Inl err \<Rightarrow> Inl err
                  | Inr ys \<Rightarrow> Inr (y # ys)))"

text \<open>
  \<^verbatim>\<open>(this.config.embeds ?? []).filter(...).map(...).filter(Boolean)\<close>; a value that is
  neither nullish nor an array has no \<^verbatim>\<open>filter\<close> method.
\<close>

definition buildEmbeds :: "jsval \<Rightarrow> error + embed_link list" where
  "buildEmbeds cfg =
     (case nco (get_prop cfg ''embeds'') (JArr []) of
        JArr xs \<Rightarrow>
          (case filter_entries xs of
             Inl err \<Rightarrow> Inl err
           | Inr kept \<Rightarrow> (case map_entries kept 0 of
                            Inl err \<Rightarrow> Inl err
                          | Inr ys \<Rightarrow> Inr (List.map_filter id ys)))
      | _ \<Rightarrow> Inl TypeError)"

subsection \<open>Synthetic content items and host calls\<close>

record author =
  a_id :: string
  a_username :: jsval
  a_discriminator :: jsval
  a_avatar :: jsval
  a_bot :: jsval
  a_public_flags :: jsval
  a_global_name :: jsval

text \<open>
  The message object of \<^verbatim>\<open>buildFakeMessage\<close>; its constant fields (type 0, tts false,
  empty mention and attachment lists, flags 0, state SENT) are left out.
\<close>

record fake_message =
  m_id :: string
  m_channel_id :: string
  m_guild_id :: jsval
  m_author :: author
  m_content :: jsval
  m_timestamp :: string
  m_embeds :: "embed_link list"
  m_fakeMessageComposer :: bool
  m_nonce :: string

datatype action =
    MessageCreate string fake_message
  | MessageDelete string string

text \<open>Every call the plugin makes on a host module is appended to a trace.\<close>

datatype call =
    DeleteMessage string string
  | ReceiveMessage string fake_message
  | Dispatch action
  | StorageSet jsval
  | Unsubscribe
  | UndoPatch
  | Warn string
  | Info string

text \<open>
  The host modules. A field is None where the module or method is missing (the
  \<^verbatim>\<open>?.\<close> of the source); a function into \<open>error option\<close> or \<open>error + jsval\<close> says whether
  the call throws.
\<close>

record env =
  storage_get :: "(error + jsval) option"
  storage_set :: "(jsval \<Rightarrow> error option) option"
  json_parse :: "string \<Rightarrow> error + jsval"
  getUser :: "(string \<Rightarrow> error + jsval) option"
  store_fetchUser :: "(string \<Rightarrow> error + jsval) option"
  getChannel :: "(string \<Rightarrow> error + jsval) option"
  receiveMessage :: "(string \<Rightarrow> fake_message \<Rightarrow> error option) option"
  deleteMessage :: "(string \<Rightarrow> string \<Rightarrow> error option) option"
  dispatch :: "(action \<Rightarrow> error option) option"
  getCurrentlySelectedChannelId :: "string option option"
  getChannelId :: "string option option"
  getMostRecentSelectedTextChannelId :: "string option option"
  unsubscribe_result :: "error option"
  undo_result :: "error option"
  date_iso :: string
  date_now :: nat

text \<open>
  The plugin instance, followed by the host's side of the timer API (pending timeouts as
  handle and due time, the next handle, the clock in milliseconds) and the trace.
\<close>

record state =
  config :: jsval
  persistTimer :: "nat option"
  timestampBadgePatched :: bool
  injectedMessages :: "(string \<times> string) list"
  userCache :: "(string \<times> jsval) list"
  channelSelectUnsub :: bool
  started :: bool
  patches :: nat
  timers :: "(nat \<times> nat) list"
  next_handle :: nat
  clock :: nat
  calls :: "call list"

type_synonym 'a res = "(error + 'a) \<times> state"

definition init_state :: state where
  "init_state = \<lparr> config = getDefaultConfig, persistTimer = None,
     timestampBadgePatched = False, injectedMessages = [], userCache = [],
     channelSelectUnsub = False, started = False, patches = 0,
     timers = [], next_handle = 1, clock = 0, calls = [] \<rparr>"

definition log_call :: "call \<Rightarrow> state \<Rightarrow> state" where
  "log_call c s = s\<lparr>calls := calls s @ [c]\<rparr>"

definition warn :: "string \<Rightarrow> state \<Rightarrow> state" where
  "warn msg s = log_call (Warn msg) s"

definition log_info :: "string \<Rightarrow> state \<Rightarrow> state" where
  "log_info msg s = log_call (Info msg) s"

definition host_call :: "call \<Rightarrow> error option \<Rightarrow> state \<Rightarrow> unit res" where
  "host_call c outcome s =
     (case outcome of
        Some err \<Rightarrow> (Inl err, log_call c s)
      | None \<Rightarrow> (Inr (), log_call c s))"

subsection \<open>Config Store: load and debounced persistence\<close>

definition loadConfig :: "env \<Rightarrow> state \<Rightarrow> jsval res" where
  "loadConfig e s =
     (case (case storage_get e of
              None \<Rightarrow> Inr getDefaultConfig
            | Some (Inl err) \<Rightarrow> Inl err
            | Some (Inr saved) \<Rightarrow>
                if \<not> truthy saved then Inr getDefaultConfig
                else (case (case saved of JStr t \<Rightarrow> json_parse e t | _ \<Rightarrow> Inr saved) of
                        Inl err \<Rightarrow> Inl err
                      | Inr parsed \<Rightarrow> Inr (mergeWithDefaults parsed))) of
        Inl err \<Rightarrow> (Inr getDefaultConfig, warn ''Failed to load config, reverting to defaults'' s)
      | Inr cfg \<Rightarrow> (Inr cfg, s))"

text \<open>\<^verbatim>\<open>if (this.persistTimer)\<close>: a handle is a number, truthy unless 0.\<close>

definition clearPersistTimer :: "state \<Rightarrow> state" where
  "clearPersistTimer s =
     (case persistTimer s of
        None \<Rightarrow> s
      | Some h \<Rightarrow> if h = 0 then s
                  else s\<lparr>timers := filter (\<lambda>(i, due). i \<noteq> h) (timers s), persistTimer := None\<rparr>)"

definition PERSIST_DEBOUNCE_MS :: nat where
  "PERSIST_DEBOUNCE_MS = 250"

definition enqueuePersist :: "state \<Rightarrow> state" where
  "enqueuePersist s =
     (let s1 = clearPersistTimer s; h = next_handle s1 in
      s1\<lparr>timers := timers s1 @ [(h, clock s1 + PERSIST_DEBOUNCE_MS)],
         next_handle := h + 1,
         persistTimer := Some h\<rparr>)"

text \<open>The timeout's callback: it reads \<^verbatim>\<open>this.config\<close> when it runs.\<close>

definition persist_callback :: "env \<Rightarrow> state \<Rightarrow> state" where
  "persist_callback e s =
     (case storage_set e of
        None \<Rightarrow> s
      | Some f \<Rightarrow>
         (case host_call (StorageSet (config s)) (f (config s)) s of
            (Inl err, s1) \<Rightarrow> warn ''Failed to persist FakeMessageComposer configuration'' s1
          | (Inr u, s1) \<Rightarrow> s1))"

fun run_due :: "env \<Rightarrow> (nat \<times> nat) list \<Rightarrow> state \<Rightarrow> state" where
  "run_due e [] s = s"
| "run_due e (t # ts) s = run_due e ts (persist_callback e s)"

text \<open>The host's event loop: \<open>d\<close> milliseconds pass and the timeouts now due run.\<close>

definition advance :: "env \<Rightarrow> nat \<Rightarrow> state \<Rightarrow> state" where
  "advance e d s =
     (let now = clock s + d in
      run_due e (filter (\<lambda>(h, due). due \<le> now) (timers s))
        (s\<lparr>clock := now, timers := filter (\<lambda>(h, due). \<not> due \<le> now) (timers s)\<rparr>))"

subsection \<open>Injection and removal\<close>

definition dispatchMessageDelete :: "env \<Rightarrow> string \<Rightarrow> string \<Rightarrow> state \<Rightarrow> unit res" where
  "dispatchMessageDelete e channelId messageId s =
     (case deleteMessage e of
        Some f \<Rightarrow> host_call (DeleteMessage channelId messageId) (f channelId messageId) s
      | None \<Rightarrow>
         (case dispatch e of
            Some d \<Rightarrow> host_call (Dispatch (MessageDelete messageId channelId))
                        (d (MessageDelete messageId channelId)) s
          | None \<Rightarrow> (Inr (), s)))"

definition injectFakeMessage :: "env \<Rightarrow> fake_message \<Rightarrow> state \<Rightarrow> unit res" where
  "injectFakeMessage e message s =
     (case receiveMessage e of
        Some f \<Rightarrow> host_call (ReceiveMessage (m_channel_id message) message)
                    (f (m_channel_id message) message) s
      | None \<Rightarrow>
         (case dispatch e of
            Some d \<Rightarrow> host_call (Dispatch (MessageCreate (m_channel_id message) message))
                        (d (MessageCreate (m_channel_id message) message)) s
          | None \<Rightarrow> (Inr (), s)))"

text \<open>\<^verbatim>\<open>if (!existingId) return\<close>: a missing entry reads undefined, an empty id is falsy.\<close>

definition removeFakeMessage :: "env \<Rightarrow> string \<Rightarrow> state \<Rightarrow> unit res" where
  "removeFakeMessage e channelId s =
     (case map_of (injectedMessages s) channelId of
        None \<Rightarrow> (Inr (), s)
      | Some existingId \<Rightarrow>
          if existingId = [] then (Inr (), s)
          else (case dispatchMessageDelete e channelId existingId s of
                  (Inl err, s1) \<Rightarrow> (Inl err, s1)
                | (Inr u, s1) \<Rightarrow>
                    (Inr (), s1\<lparr>injectedMessages := AList.delete channelId (injectedMessages s1)\<rparr>)))"

fun delete_each :: "env \<Rightarrow> (string \<times> string) list \<Rightarrow> state \<Rightarrow> unit res" where
  "delete_each e [] s = (Inr (), s)"
| "delete_each e ((channelId, messageId) # rest) s =
     (case dispatchMessageDelete e channelId messageId s of
        (Inl err, s1) \<Rightarrow> (Inl err, s1)
      | (Inr u, s1) \<Rightarrow> delete_each e rest s1)"

definition clearInjectedMessages :: "env \<Rightarrow> state \<Rightarrow> unit res" where
  "clearInjectedMessages e s =
     (case delete_each e (injectedMessages s) s of
        (Inl err, s1) \<Rightarrow> (Inl err, s1)
      | (Inr u, s1) \<Rightarrow> (Inr (), s1\<lparr>injectedMessages := []\<rparr>))"

subsection \<open>Identity Cache\<close>

text \<open>
  \<^verbatim>\<open>fetchUser(userId)\<close>; None is a nullish argument. The store's synchronous
  \<^verbatim>\<open>getUser\<close> is called outside any try block, its asynchronous \<^verbatim>\<open>fetchUser\<close> inside one.
\<close>

text \<open>\<^verbatim>\<open>this.userStore?.getUser?.(trimmed)\<close>\<close>

definition store_getUser :: "env \<Rightarrow> string \<Rightarrow> error + jsval" where
  "store_getUser e trimmed = (case getUser e of None \<Rightarrow> Inr JUndefined | Some g \<Rightarrow> g trimmed)"

definition fetchUser :: "env \<Rightarrow> string option \<Rightarrow> state \<Rightarrow> jsval res" where
  "fetchUser e userId s =
     (let trimmed = trim (case userId of None \<Rightarrow> [] | Some u \<Rightarrow> u) in
      if trimmed = [] then (Inr JNull, s)
      else case map_of (userCache s) trimmed of
        Some cached \<Rightarrow> (Inr cached, s)
      | None \<Rightarrow>
         (case store_getUser e trimmed of
            Inl err \<Rightarrow> (Inl err, s)
          | Inr user0 \<Rightarrow>
             (let (user, s1) =
                    (if \<not> truthy user0 then
                       (case store_fetchUser e of
                          None \<Rightarrow> (user0, s)
                        | Some f \<Rightarrow>
                           (case f trimmed of
                              Inr u \<Rightarrow> (u, s)
                            | Inl err \<Rightarrow>
                               (user0, warn ''Failed to fetch user from cache - falling back to placeholder'' s)))
                     else (user0, s));
                  s2 = (if truthy user
                        then s1\<lparr>userCache := AList.update trimmed user (userCache s1)\<rparr>
                        else s1)
              in (Inr (nco user (JObj [(''id'', JStr trimmed)])), s2))))"

subsection \<open>Reconciliation Engine\<close>

definition shouldRenderInChannel :: "jsval \<Rightarrow> string \<Rightarrow> error + bool" where
  "shouldRenderInChannel cfg channelId =
     (if \<not> truthy (get_prop cfg ''enabled'') then Inr False
      else if \<not> isSnowflake (get_prop cfg ''discordId'') then Inr False
      else case opt_trim (get_prop cfg ''messageContent'') of
             Inl err \<Rightarrow> Inl err
           | Inr t \<Rightarrow>
               if \<not> truthy t then Inr False
               else if get_prop cfg ''channelMode'' = JStr ''specific'' then
                 (if \<not> isSnowflake (get_prop cfg ''targetChannelId'') then Inr False
                  else Inr (JStr channelId = get_prop cfg ''targetChannelId''))
               else Inr True)"

definition buildAuthor :: "jsval \<Rightarrow> string \<Rightarrow> author" where
  "buildAuthor user userId =
     \<lparr> a_id = userId,
       a_username = nco (get_prop user ''username'')
                      (nco (get_prop user ''global_name'')
                         (nco (get_prop user ''globalName'')
                            (JStr (''Unknown User ('' @ userId @ '')'')))),
       a_discriminator = nco (get_prop user ''discriminator'') (JStr ''0000''),
       a_avatar = nco (get_prop user ''avatar'') JNull,
       a_bot = nco (get_prop user ''bot'') (JBool False),
       a_public_flags = nco (get_prop user ''public_flags'') (JNum 0),
       a_global_name = nco (get_prop user ''global_name'')
                         (nco (get_prop user ''globalName'') JNull) \<rparr>"

fun join_comma :: "string list \<Rightarrow> string" where
  "join_comma [] = []"
| "join_comma [x] = x"
| "join_comma (x # y # ys) = x @ '','' @ join_comma (y # ys)"

text \<open>String conversion inside a template literal.\<close>

fun js_to_string :: "jsval \<Rightarrow> string" where
  "js_to_string JUndefined = ''undefined''"
| "js_to_string JNull = ''null''"
| "js_to_string (JBool b) = (if b then ''true'' else ''false'')"
| "js_to_string (JNum n) = (if n < 0 then ''-'' @ show_nat (nat (- n)) else show_nat (nat n))"
| "js_to_string (JStr s) = s"
| "js_to_string (JArr xs) =
     join_comma (map (\<lambda>x. if nullish x then [] else js_to_string x) xs)"
| "js_to_string (JObj ps) = ''[object Object]''"

definition LOCAL_BADGE_TEXT :: string where
  "LOCAL_BADGE_TEXT = ''LOCAL FAKE''"

definition MESSAGE_ID_PREFIX :: string where
  "MESSAGE_ID_PREFIX = ''fake-message-composer''"

definition decorateContent :: "state \<Rightarrow> jsval \<Rightarrow> jsval" where
  "decorateContent s content =
     (if timestampBadgePatched s then content
      else JStr (''['' @ LOCAL_BADGE_TEXT @ ''] '' @ js_to_string content))"

text \<open>
  \<^verbatim>\<open>buildFakeMessage(channelId)\<close>; None is its \<^verbatim>\<open>null\<close>. \<^verbatim>\<open>this.config.discordId.trim()\<close>
  is a TypeError unless discordId is a string. The await of \<^verbatim>\<open>fetchUser\<close> is run to
  completion in place: no other handler is interleaved. \<open>message_after_fetch\<close> is the
  part of the method that follows the await.
\<close>

text \<open>\<^verbatim>\<open>this.channelStore?.getChannel?.(channelId)\<close>\<close>

definition store_getChannel :: "env \<Rightarrow> string \<Rightarrow> error + jsval" where
  "store_getChannel e channelId =
     (case getChannel e of None \<Rightarrow> Inr JUndefined | Some g \<Rightarrow> g channelId)"

definition message_after_fetch ::
  "env \<Rightarrow> string \<Rightarrow> string \<Rightarrow> jsval \<Rightarrow> state \<Rightarrow> fake_message option res" where
  "message_after_fetch e channelId authorId user s =
     (let baseContent = get_prop (config s) ''messageContent'' in
      if \<not> truthy baseContent then (Inr None, s)
      else case buildEmbeds (config s) of
        Inl err \<Rightarrow> (Inl err, s)
      | Inr embeds \<Rightarrow>
         (case store_getChannel e channelId of
            Inl err \<Rightarrow> (Inl err, s)
          | Inr ch \<Rightarrow>
             (Inr (Some \<lparr> m_id = MESSAGE_ID_PREFIX @ '':'' @ channelId,
                          m_channel_id = channelId,
                          m_guild_id = nco (get_prop ch ''guild_id'') JNull,
                          m_author = buildAuthor user authorId,
                          m_content = decorateContent s baseContent,
                          m_timestamp = date_iso e,
                          m_embeds = embeds,
                          m_fakeMessageComposer = True,
                          m_nonce = MESSAGE_ID_PREFIX @ '':'' @ show_nat (date_now e) \<rparr>),
              s)))"

definition buildFakeMessage :: "env \<Rightarrow> string \<Rightarrow> state \<Rightarrow> fake_message option res" where
  "buildFakeMessage e channelId s =
     (case get_prop (config s) ''discordId'' of
        JStr d \<Rightarrow>
          (case fetchUser e (Some (trim d)) s of
             (Inl err, s1) \<Rightarrow> (Inl err, s1)
           | (Inr user, s1) \<Rightarrow> message_after_fetch e channelId (trim d) user s1)
      | _ \<Rightarrow> (Inl TypeError, s))"

text \<open>The body of the try block of \<^verbatim>\<open>refreshChannel\<close>.\<close>

definition build_and_inject :: "env \<Rightarrow> string \<Rightarrow> state \<Rightarrow> unit res" where
  "build_and_inject e channelId s =
     (case buildFakeMessage e channelId s of
        (Inl err, s1) \<Rightarrow> (Inl err, s1)
      | (Inr None, s1) \<Rightarrow> (Inr (), s1)
      | (Inr (Some fakeMessage), s1) \<Rightarrow>
          (case injectFakeMessage e fakeMessage s1 of
             (Inl err, s2) \<Rightarrow> (Inl err, s2)
           | (Inr u, s2) \<Rightarrow>
               (Inr (), s2\<lparr>injectedMessages :=
                              AList.update channelId (m_id fakeMessage) (injectedMessages s2)\<rparr>)))"

text \<open>What \<^verbatim>\<open>refreshChannel\<close> does after the retraction: the rendering decision, then the try block.\<close>

definition decide_and_create :: "env \<Rightarrow> string \<Rightarrow> state \<Rightarrow> unit res" where
  "decide_and_create e channelId s =
     (case shouldRenderInChannel (config s) channelId of
        Inl err \<Rightarrow> (Inl err, s)
      | Inr False \<Rightarrow> (Inr (), s)
      | Inr True \<Rightarrow>
          (case build_and_inject e channelId s of
             (Inl err, s1) \<Rightarrow> (Inr (), warn ''Failed to create fake message'' s1)
           | (Inr u, s1) \<Rightarrow> (Inr (), s1)))"

text \<open>
  \<^verbatim>\<open>refreshChannel(channelIdRaw)\<close> for a string argument, run to completion; \<open>Inl\<close> is a
  rejected promise.
\<close>

definition refreshChannel :: "env \<Rightarrow> string \<Rightarrow> state \<Rightarrow> unit res" where
  "refreshChannel e channelIdRaw s =
     (if channelIdRaw = [] then (Inr (), s)
      else case removeFakeMessage e channelIdRaw s of
        (Inl err, s1) \<Rightarrow> (Inl err, s1)
      | (Inr u, s1) \<Rightarrow> decide_and_create e channelIdRaw s1)"

definition getCurrentChannelId :: "env \<Rightarrow> string option" where
  "getCurrentChannelId e =
     (case getCurrentlySelectedChannelId e of
        Some (Some c) \<Rightarrow> Some c
      | _ \<Rightarrow> (case getChannelId e of
                Some (Some c) \<Rightarrow> Some c
              | _ \<Rightarrow> (case getMostRecentSelectedTextChannelId e of
                        Some (Some c) \<Rightarrow> Some c
                      | _ \<Rightarrow> None)))"

text \<open>
  The promise of \<^verbatim>\<open>refreshChannel\<close> is dropped here, so its rejection reaches no caller.
\<close>

definition refreshForCurrentChannel :: "env \<Rightarrow> bool \<Rightarrow> state \<Rightarrow> state" where
  "refreshForCurrentChannel e force s =
     (if \<not> started s \<and> \<not> force then s
      else case getCurrentChannelId e of
        None \<Rightarrow> s
      | Some current \<Rightarrow> if current = [] then s else snd (refreshChannel e current s))"

definition reapplyFakeMessages :: "env \<Rightarrow> state \<Rightarrow> unit res" where
  "reapplyFakeMessages e s =
     (if \<not> started s then (Inr (), s)
      else case clearInjectedMessages e s of
        (Inl err, s1) \<Rightarrow> (Inl err, s1)
      | (Inr u, s1) \<Rightarrow> (Inr (), refreshForCurrentChannel e True s1))"

subsection \<open>Config Store: apply and update\<close>

record options =
  skipPersist :: bool
  skipReload :: bool

definition applyConfig :: "env \<Rightarrow> jsval \<Rightarrow> options \<Rightarrow> state \<Rightarrow> jsval res" where
  "applyConfig e nextConfig opts s =
     (let s1 = s\<lparr>config := mergeWithDefaults (nco nextConfig (config s))\<rparr>;
          s2 = (if \<not> skipPersist opts then enqueuePersist s1 else s1)
      in if \<not> skipReload opts then
           (case reapplyFakeMessages e s2 of
              (Inl err, s3) \<Rightarrow> (Inl err, s3)
            | (Inr u, s3) \<Rightarrow> (Inr (config s3), s3))
         else (Inr (config s2), s2))"

definition updateConfig :: "env \<Rightarrow> jsval \<Rightarrow> options \<Rightarrow> state \<Rightarrow> jsval res" where
  "updateConfig e patch opts s =
     applyConfig e
       (JObj (AList.merge (own_props (config s)) (own_props (nco patch (JObj [])))))
       opts s"

subsection \<open>Lifecycle Controller: stop\<close>

definition unsubscribeFromChannelChanges :: "env \<Rightarrow> state \<Rightarrow> state" where
  "unsubscribeFromChannelChanges e s =
     (let s1 = (if channelSelectUnsub s then
                  (case host_call Unsubscribe (unsubscribe_result e) s of
                     (Inl err, s') \<Rightarrow> warn ''Failed to unsubscribe from CHANNEL_SELECT'' s'
                   | (Inr u, s') \<Rightarrow> s')
                else s)
      in s1\<lparr>channelSelectUnsub := False\<rparr>)"

fun undo_loop :: "env \<Rightarrow> nat \<Rightarrow> state \<Rightarrow> state" where
  "undo_loop e 0 s = s"
| "undo_loop e (Suc n) s =
     undo_loop e n
       (case host_call UndoPatch (undo_result e) (s\<lparr>patches := n\<rparr>) of
          (Inl err, s1) \<Rightarrow> warn ''Failed to undo patch'' s1
        | (Inr u, s1) \<Rightarrow> s1)"

definition unpatchAll :: "env \<Rightarrow> state \<Rightarrow> state" where
  "unpatchAll e s = (undo_loop e (patches s) s)\<lparr>timestampBadgePatched := False\<rparr>"

definition stop :: "env \<Rightarrow> state \<Rightarrow> unit res" where
  "stop e s =
     (let s1 = log_info ''Stopping FakeMessageComposer'' s;
          s2 = s1\<lparr>started := False\<rparr>;
          s3 = unsubscribeFromChannelChanges e s2;
          s4 = unpatchAll e s3
      in case clearInjectedMessages e s4 of
           (Inl err, s5) \<Rightarrow> (Inl err, s5)
         | (Inr u, s5) \<Rightarrow> (Inr (), clearPersistTimer s5))"

section \<open>Observations, invariants and concrete inputs\<close>

subsection \<open>Reading the trace\<close>

text \<open>
  The removal collaborator is \<^verbatim>\<open>messageActions.deleteMessage\<close> or, failing that, a
  MESSAGE_DELETE dispatch; \<open>removals\<close> lists the (channel, message id) pairs it was
  called with, in order. \<open>writes\<close> lists the configurations handed to \<^verbatim>\<open>storage.set\<close>.
\<close>

fun is_write :: "call \<Rightarrow> bool" where
  "is_write (StorageSet v) = True"
| "is_write c = False"

fun written_of :: "call \<Rightarrow> jsval option" where
  "written_of (StorageSet v) = Some v"
| "written_of c = None"

definition writes :: "call list \<Rightarrow> jsval list" where
  "writes tr = List.map_filter written_of tr"

fun is_injection :: "call \<Rightarrow> bool" where
  "is_injection (ReceiveMessage c m) = True"
| "is_injection (Dispatch (MessageCreate c m)) = True"
| "is_injection c = False"

fun removal_of :: "call \<Rightarrow> (string \<times> string) option" where
  "removal_of (DeleteMessage c m) = Some (c, m)"
| "removal_of (Dispatch (MessageDelete m c)) = Some (c, m)"
| "removal_of c = None"

definition removals :: "call list \<Rightarrow> (string \<times> string) list" where
  "removals tr = List.map_filter removal_of tr"

text \<open>
  The injection calls of a trace, in order, as pairs of channel and message id, whichever
  collaborator took them.
\<close>

fun injection_of :: "call \<Rightarrow> (string \<times> string) option" where
  "injection_of (ReceiveMessage c m) = Some (c, m_id m)"
| "injection_of (Dispatch (MessageCreate c m)) = Some (c, m_id m)"
| "injection_of c = None"

definition injections :: "call list \<Rightarrow> (string \<times> string) list" where
  "injections tr = List.map_filter injection_of tr"

subsection \<open>Invariants of the plugin instance\<close>

text \<open>
  The Active-Injection Table is a JavaScript Map: its keys are distinct. Its keys are
  channel ids that passed \<^verbatim>\<open>if (!channelIdRaw) return\<close> and its values are ids of the form
  \<^verbatim>\<open>fake-message-composer:<channel>\<close>, so neither is empty. The identity cache only
  ever receives truthy values.
\<close>

definition table_ok :: "state \<Rightarrow> bool" where
  "table_ok s = (distinct (map fst (injectedMessages s))
                 \<and> list_all (\<lambda>p. fst p \<noteq> [] \<and> snd p \<noteq> []) (injectedMessages s))"

definition cache_ok :: "state \<Rightarrow> bool" where
  "cache_ok s = list_all (\<lambda>p. truthy (snd p)) (userCache s)"

text \<open>
  What the reconciliation methods leave alone: everything but the table, the identity
  cache and the trace, and they never write to storage.
\<close>

definition engine_step :: "state \<Rightarrow> state \<Rightarrow> bool" where
  "engine_step s s' =
     (config s' = config s \<and> persistTimer s' = persistTimer s
      \<and> timestampBadgePatched s' = timestampBadgePatched s
      \<and> channelSelectUnsub s' = channelSelectUnsub s \<and> started s' = started s
      \<and> patches s' = patches s \<and> timers s' = timers s \<and> next_handle s' = next_handle s
      \<and> clock s' = clock s
      \<and> (\<exists>tr. calls s' = calls s @ tr \<and> filter is_write tr = []))"

text \<open>
  The pending timeouts are at most the one whose handle the plugin holds
  (\<open>owned_timers\<close>); \<open>pending_persist\<close> is the state right after \<^verbatim>\<open>enqueuePersist\<close>:
  exactly that one, due a full debounce period from now.
\<close>

definition owned_timers :: "state \<Rightarrow> bool" where
  "owned_timers s =
     (timers s = []
      \<or> (length (timers s) = 1
         \<and> persistTimer s = Some (fst (hd (timers s))) \<and> fst (hd (timers s)) \<noteq> 0))"

definition pending_persist :: "state \<Rightarrow> bool" where
  "pending_persist s =
     (length (timers s) = 1
      \<and> persistTimer s = Some (fst (hd (timers s))) \<and> fst (hd (timers s)) \<noteq> 0
      \<and> snd (hd (timers s)) = clock s + PERSIST_DEBOUNCE_MS)"

text \<open>No host collaborator of the reconciliation path throws.\<close>

definition collaborators_return :: "env \<Rightarrow> bool" where
  "collaborators_return e =
     ((\<forall>f c m. deleteMessage e = Some f \<longrightarrow> f c m = None)
      \<and> (\<forall>f c m. receiveMessage e = Some f \<longrightarrow> f c m = None)
      \<and> (\<forall>d a. dispatch e = Some d \<longrightarrow> d a = None)
      \<and> (\<forall>i err. store_getUser e i \<noteq> Inl err)
      \<and> (\<forall>c err. store_getChannel e c \<noteq> Inl err))"

subsection \<open>Runs\<close>

text \<open>
  A burst of \<^verbatim>\<open>updateConfig\<close> calls: each element is the time that passes before the
  call, the patch and the options.
\<close>

fun run_updates :: "env \<Rightarrow> (nat \<times> jsval \<times> options) list \<Rightarrow> state \<Rightarrow> state" where
  "run_updates e [] s = s"
| "run_updates e (u # rest) s =
     run_updates e rest (snd (updateConfig e (fst (snd u)) (snd (snd u)) (advance e (fst u) s)))"

text \<open>The state of \<^verbatim>\<open>stop\<close> when it reaches \<^verbatim>\<open>clearInjectedMessages\<close>.\<close>

definition before_clear :: "env \<Rightarrow> state \<Rightarrow> state" where
  "before_clear e s =
     unpatchAll e (unsubscribeFromChannelChanges e
       ((log_info ''Stopping FakeMessageComposer'' s)\<lparr>started := False\<rparr>))"

subsection \<open>Identity Cache: argument and placeholder\<close>

definition trimmed_id :: "string option \<Rightarrow> string" where
  "trimmed_id userId = trim (case userId of None \<Rightarrow> [] | Some u \<Rightarrow> u)"

definition placeholder_user :: "string \<Rightarrow> jsval" where
  "placeholder_user trimmed = JObj [(''id'', JStr trimmed)]"

subsection \<open>Embed links as pairs of strings\<close>

text \<open>
  After \<^verbatim>\<open>normalizeEmbeds\<close> every configured entry is an object with a string label and a
  string url; \<open>config_entries\<close> reads them back as pairs. \<open>has_text\<close> is the first
  filter of \<^verbatim>\<open>buildEmbeds\<close> on such a pair, \<open>expected_link\<close> the link that the entry at
  position \<open>i\<close> of the configured list yields: its ordinal counts the entries before it
  that pass the first filter.
\<close>

fun str_of :: "jsval \<Rightarrow> string" where
  "str_of (JStr s) = s"
| "str_of v = []"


definition entry_obj :: "string \<times> string \<Rightarrow> jsval" where
  "entry_obj p = JObj [(''label'', JStr (fst p)), (''url'', JStr (snd p))]"

definition has_text :: "string \<times> string \<Rightarrow> bool" where
  "has_text p = (trim (fst p) \<noteq> [] \<or> trim (snd p) \<noteq> [])"

definition link_of :: "string \<Rightarrow> string \<Rightarrow> embed_link" where
  "link_of title url = \<lparr> e_type = ''link'', e_title = title, e_url = url, e_description = url,
      e_color = 0x5865f2, e_footer = ''LOCAL PREVIEW ONLY'' \<rparr>"

definition expected_link ::
  "(string \<times> string) list \<Rightarrow> nat \<times> string \<times> string \<Rightarrow> embed_link option" where
  "expected_link es ip =
     (case ip of (i, l, u) \<Rightarrow>
        if trim u = [] then None
        else Some (link_of
               (if trim l = [] then ''Link '' @ show_nat (Suc (length (filter has_text (take i es))))
                else trim l)
               (trim u)))"

definition numbered_link :: "nat \<times> string \<times> string \<Rightarrow> embed_link option" where
  "numbered_link ip =
     (if trim (snd (snd ip)) = [] then None
      else Some (link_of (if trim (fst (snd ip)) = [] then ''Link '' @ show_nat (fst ip + 1)
                          else trim (fst (snd ip)))
                         (trim (snd (snd ip)))))"

definition positioned_link ::
  "nat \<Rightarrow> (string \<times> string) list \<Rightarrow> nat \<times> string \<times> string \<Rightarrow> embed_link option" where
  "positioned_link n es ip =
     numbered_link (n + length (filter has_text (take (fst ip) es)), snd ip)"




text \<open>The field names of the Configuration entity.\<close>

definition config_fields :: "string list" where
  "config_fields =
     [''enabled'', ''discordId'', ''messageContent'', ''channelMode'', ''targetChannelId'', ''embeds'']"

subsection \<open>Concrete hosts, configurations and states\<close>

text \<open>
  \<open>env0\<close> is a host whose collaborators all return: the user store knows nobody, the
  selected channel is 11111. The others differ from it in one collaborator.
\<close>

definition env0 :: env where
  "env0 = \<lparr> storage_get = None, storage_set = Some (\<lambda>c. None),
     json_parse = (\<lambda>t. Inl SyntaxError),
     getUser = Some (\<lambda>i. Inr JUndefined), store_fetchUser = None,
     getChannel = Some (\<lambda>c. Inr JUndefined),
     receiveMessage = Some (\<lambda>c m. None), deleteMessage = Some (\<lambda>c m. None),
     dispatch = None,
     getCurrentlySelectedChannelId = Some (Some ''11111''), getChannelId = None,
     getMostRecentSelectedTextChannelId = None,
     unsubscribe_result = None, undo_result = None,
     date_iso = ''2024-01-01T00:00:00.000Z'', date_now = 1704 \<rparr>"

definition env_stored :: "jsval \<Rightarrow> env" where
  "env_stored v = env0\<lparr>storage_get := Some (Inr v)\<rparr>"

definition env_fetch_rejects :: env where
  "env_fetch_rejects = env0\<lparr>store_fetchUser := Some (\<lambda>i. Inl (HostError ''network''))\<rparr>"

definition env_lookup_throws :: env where
  "env_lookup_throws = env0\<lparr>getUser := Some (\<lambda>i. Inl (HostError ''store''))\<rparr>"

definition env_resolving :: env where
  "env_resolving =
     env0\<lparr>getUser := Some (\<lambda>i. Inr (JObj [(''id'', JStr i), (''username'', JStr ''alice'')]))\<rparr>"

definition env_delete_throws :: env where
  "env_delete_throws =
     env0\<lparr>deleteMessage := Some (\<lambda>c m. Some (HostError ''delete failed''))\<rparr>"

definition stored_extra :: jsval where
  "stored_extra = JObj [(''enabled'', JBool False), (''theme'', JStr ''dark'')]"


definition cfg_specific :: "string \<Rightarrow> jsval" where
  "cfg_specific target = mergeWithDefaults (JObj
     [(''discordId'', JStr ''123456789012345''), (''messageContent'', JStr ''hello''),
      (''channelMode'', JStr ''specific''), (''targetChannelId'', JStr target)])"

definition cfg_any :: jsval where
  "cfg_any = mergeWithDefaults (JObj
     [(''discordId'', JStr ''123456789012345''), (''messageContent'', JStr ''hello'')])"

definition cfg_disabled :: jsval where
  "cfg_disabled = mergeWithDefaults (JObj
     [(''enabled'', JBool False), (''discordId'', JStr ''123456789012345''),
      (''messageContent'', JStr ''hello'')])"

definition state_with :: "jsval \<Rightarrow> state" where
  "state_with cfg = init_state\<lparr>config := cfg\<rparr>"

definition state_one :: state where
  "state_one = init_state\<lparr>injectedMessages := [(''99999'', ''fake-message-composer:99999'')]\<rparr>"

definition state_two :: state where
  "state_two = init_state\<lparr>config := cfg_any, started := True,
     injectedMessages := [(''11111'', ''fake-message-composer:11111''),
                          (''22222'', ''fake-message-composer:22222'')]\<rparr>"

definition state_busy :: state where
  "state_busy = state_two\<lparr>persistTimer := Some 1, timers := [(1, 250)], next_handle := 2\<rparr>"

definition persist_opts :: options where
  "persist_opts = \<lparr>skipPersist = False, skipReload = False\<rparr>"

definition burst :: "(nat \<times> jsval \<times> options) list" where
  "burst = [(0, JObj [(''messageContent'', JStr ''a'')], persist_opts),
            (100, JObj [(''messageContent'', JStr ''ab'')], persist_opts),
            (249, JObj [(''messageContent'', JStr ''abc'')], persist_opts)]"

section \<open>Properties\<close>

subsection \<open>Embed links\<close>

lemma entry_has_text_obj: "entry_has_text (entry_obj p) = Inr (has_text p)"
  by (simp add: entry_has_text_def entry_obj_def has_text_def)

lemma filter_entries_obj: "filter_entries (map entry_obj es) = Inr (map entry_obj (filter has_text es))"
  by (induction es) (simp_all add: entry_has_text_obj)

lemma embed_of_entry_obj:
  "embed_of_entry (entry_obj (l, u)) n =
     Inr (if trim u = [] then None
          else Some (link_of (if trim l = [] then ''Link '' @ show_nat (n + 1) else trim l) (trim u)))"
  by (simp add: embed_of_entry_def entry_obj_def link_of_def)

lemma embed_of_entry_numbered: "embed_of_entry (entry_obj p) n = Inr (numbered_link (n, p))"
  by (simp add: embed_of_entry_def entry_obj_def link_of_def numbered_link_def)

lemma map_entries_obj:
  "map_entries (map entry_obj ks) n = Inr (map numbered_link (enumerate n ks))"
  by (induction ks arbitrary: n) (simp_all add: embed_of_entry_numbered)

lemma positioned_link_shift:
  "positioned_link n (e # es) (Suc i, p) = positioned_link (if has_text e then Suc n else n) es (i, p)"
  by (simp add: positioned_link_def)

lemma positioned_link_head: "positioned_link n (e # es) (0, e) = numbered_link (n, e)"
  by (simp add: positioned_link_def)

lemma numbered_link_blank: "\<not> has_text p \<Longrightarrow> numbered_link (k, p) = None"
  by (simp add: numbered_link_def has_text_def)

lemma enumerate_Cons_shift:
  "enumerate 0 (e # es) = (0, e) # map (\<lambda>x. (Suc (fst x), snd x)) (enumerate 0 es)"
  by (simp add: enumerate_Suc_eq apfst_def map_prod_def split_def)

lemma kept_links_offset:
  "map (the \<circ> numbered_link)
     (filter (\<lambda>x. numbered_link x \<noteq> None) (enumerate n (filter has_text es))) =
   map (the \<circ> positioned_link n es)
     (filter (\<lambda>x. positioned_link n es x \<noteq> None) (enumerate 0 es))"
proof (induction es arbitrary: n)
  case Nil
  show ?case by simp
next
  case (Cons e es)
  show ?case
  proof (cases "has_text e")
    case True
    show ?thesis
      unfolding enumerate_Cons_shift
      using True Cons.IH [of "Suc n"]
      by (simp add: filter_map comp_def positioned_link_shift positioned_link_head)
  next
    case False
    show ?thesis
      unfolding enumerate_Cons_shift
      using False Cons.IH [of n]
      by (simp add: filter_map comp_def positioned_link_shift positioned_link_head
            numbered_link_blank)
  qed
qed

lemma expected_link_positioned: "expected_link es = positioned_link 0 es"
  by (auto simp: expected_link_def positioned_link_def numbered_link_def fun_eq_iff)

lemma buildEmbeds_entries:
  assumes "get_prop cfg ''embeds'' = JArr (map entry_obj es)"
  shows "buildEmbeds cfg = Inr (List.map_filter (expected_link es) (enumerate 0 es))"
  using kept_links_offset [of 0 es]
  by (simp add: buildEmbeds_def assms nco_def filter_entries_obj map_entries_obj
        expected_link_positioned List.map_filter_def filter_map comp_def)

lemma normalizeEmbeds_shape:
  "\<exists>es. normalizeEmbeds v = JArr (map entry_obj es)"
proof (cases v)
  case (JArr xs)
  have "normalizeEmbeds v = JArr (map entry_obj (map (\<lambda>x. (str_of (str_or_empty (get_prop x ''label'')), str_of (str_or_empty (get_prop x ''url'')))) xs))"
    by (simp add: JArr normalizeEmbeds_def entry_obj_def str_or_empty_def split: jsval.splits)
  then show ?thesis by blast
next
qed (auto simp: normalizeEmbeds_def intro: exI [of _ "[]"])

lemma get_embeds_mergeWithDefaults:
  "get_prop (mergeWithDefaults x) ''embeds'' = normalizeEmbeds (nco (get_prop (if x = JUndefined then JObj [] else x) ''embeds'') (JArr []))"
  by (simp add: mergeWithDefaults_def Let_def update_conv')






subsection \<open>Loading the configuration\<close>

lemma own_props_nco_empty: "own_props (nco p (JObj [])) = own_props p"
  by (cases p) (simp_all add: nco_def)

lemma get_prop_mergeWithDefaults:
  "get_prop (mergeWithDefaults p) k =
     (if k = ''embeds'' then normalizeEmbeds (nco (get_prop p ''embeds'') (JArr []))
      else case map_of (own_props p) k of
             Some v \<Rightarrow> v
           | None \<Rightarrow> get_prop getDefaultConfig k)"
proof (cases "p = JUndefined")
  case True
  then show ?thesis
    by (simp add: mergeWithDefaults_def update_conv' merge_conv' nco_def getDefaultConfig_def)
next
  case False
  then show ?thesis
    by (simp add: mergeWithDefaults_def update_conv' merge_conv' own_props_nco_empty
        map_add_def getDefaultConfig_def split: option.splits)
qed

lemma mergeWithDefaults_nullish: "nullish p \<Longrightarrow> mergeWithDefaults p = getDefaultConfig"
  by (cases p) (simp_all add: mergeWithDefaults_def nco_def getDefaultConfig_def normalizeEmbeds_def)

text \<open>
  Claim C9, amended. \<^verbatim>\<open>loadConfig\<close> never raises. A missing getter, a read that throws, a
  falsy stored value or a stored string that does not parse gives the defaults. Otherwise,
  with \<open>p\<close> the stored value (parsed when it is a string), the loaded configuration has for
  every name \<open>k\<close> other than embeds the value \<open>p\<close> has for \<open>k\<close> when \<open>p\<close> has such an own
  field (known or not) and the default otherwise, and its embeds is the normalised
  \<open>p.embeds\<close>.
\<close>

theorem loadConfig_merge:
  "\<exists>cfg. fst (loadConfig e s) = Inr cfg \<and>
     ((storage_get e = None \<or> (\<exists>err. storage_get e = Some (Inl err))
        \<or> (\<exists>v. storage_get e = Some (Inr v) \<and> \<not> truthy v)
        \<or> (\<exists>t err. storage_get e = Some (Inr (JStr t)) \<and> json_parse e t = Inl err))
       \<longrightarrow> cfg = getDefaultConfig) \<and>
     (\<forall>v p. storage_get e = Some (Inr v) \<and> truthy v
          \<and> (case v of JStr t \<Rightarrow> json_parse e t = Inr p | _ \<Rightarrow> p = v)
       \<longrightarrow> (\<forall>k. get_prop cfg k =
              (if k = ''embeds'' then normalizeEmbeds (nco (get_prop p ''embeds'') (JArr []))
               else case map_of (own_props p) k of
                      Some x \<Rightarrow> x
                    | None \<Rightarrow> get_prop getDefaultConfig k)))"
proof (cases "storage_get e")
  case None
  then show ?thesis by (simp add: loadConfig_def)
next
  case (Some r)
  show ?thesis
  proof (cases r)
    case (Inl err)
    then show ?thesis using Some by (simp add: loadConfig_def)
  next
    case (Inr v)
    show ?thesis
    proof (cases "truthy v")
      case False
      then show ?thesis using Some Inr by (simp add: loadConfig_def)
    next
      case True
      show ?thesis
      proof (cases "case v of JStr t \<Rightarrow> json_parse e t | _ \<Rightarrow> Inr v")
        case (Inl err)
        then show ?thesis using Some \<open>r = Inr v\<close> True
          by (auto simp: loadConfig_def split: jsval.splits)
      next
        case parsed: (Inr p)
        have "fst (loadConfig e s) = Inr (mergeWithDefaults p)"
          using Some \<open>r = Inr v\<close> True parsed by (simp add: loadConfig_def)
        moreover have "\<And>q. (case v of JStr t \<Rightarrow> json_parse e t = Inr q | _ \<Rightarrow> q = v) \<Longrightarrow> q = p"
          using parsed by (cases v) auto
        moreover have "\<not> (\<exists>t err. v = JStr t \<and> json_parse e t = Inl err)"
          using parsed by auto
        ultimately show ?thesis
          using Some \<open>r = Inr v\<close> True
          by (auto simp: get_prop_mergeWithDefaults)
      qed
    qed
  qed
qed

text \<open>
  Claim C9 as stated fails: a stored object with the extra field theme yields a
  configuration that has the field theme.
\<close>

theorem loadConfig_extra_fields_counterexample:
  "fst (loadConfig (env_stored stored_extra) init_state) =
     Inr (JObj [(''enabled'', JBool False), (''discordId'', JStr []),
                (''messageContent'', JStr ''This is a local-only fake message.''),
                (''channelMode'', JStr ''any''), (''targetChannelId'', JStr []),
                (''embeds'', JArr []), (''theme'', JStr ''dark'')])
   \<and> ''theme'' \<notin> set config_fields"
  by (simp add: loadConfig_def env_stored_def env0_def stored_extra_def mergeWithDefaults_def
      getDefaultConfig_def normalizeEmbeds_def nco_def config_fields_def)

text \<open>
  Claim C9, amended, at concrete inputs: the stored object with an extra field, and an
  empty storage.
\<close>

theorem loadConfig_merge_witness:
  "get_prop (projr (fst (loadConfig (env_stored stored_extra) init_state))) ''theme'' = JStr ''dark''
   \<and> get_prop (projr (fst (loadConfig (env_stored stored_extra) init_state))) ''channelMode'' = JStr ''any''
   \<and> fst (loadConfig env0 init_state) = Inr getDefaultConfig"
proof -
  obtain cfg where c: "fst (loadConfig (env_stored stored_extra) init_state) = Inr cfg"
    and f: "\<forall>v p. storage_get (env_stored stored_extra) = Some (Inr v) \<and> truthy v
          \<and> (case v of JStr t \<Rightarrow> json_parse (env_stored stored_extra) t = Inr p | _ \<Rightarrow> p = v)
       \<longrightarrow> (\<forall>k. get_prop cfg k =
              (if k = ''embeds'' then normalizeEmbeds (nco (get_prop p ''embeds'') (JArr []))
               else case map_of (own_props p) k of
                      Some x \<Rightarrow> x
                    | None \<Rightarrow> get_prop getDefaultConfig k))"
    using loadConfig_merge [of "env_stored stored_extra" init_state] by blast
  have g: "\<forall>k. get_prop cfg k =
              (if k = ''embeds'' then normalizeEmbeds (nco (get_prop stored_extra ''embeds'') (JArr []))
               else case map_of (own_props stored_extra) k of
                      Some x \<Rightarrow> x
                    | None \<Rightarrow> get_prop getDefaultConfig k)"
    using f [rule_format, of stored_extra stored_extra]
    by (simp add: env_stored_def stored_extra_def)
  obtain cfg0 where c0: "fst (loadConfig env0 init_state) = Inr cfg0"
    and d0: "storage_get env0 = None \<longrightarrow> cfg0 = getDefaultConfig"
    using loadConfig_merge [of env0 init_state] by blast
  have "cfg0 = getDefaultConfig" using d0 by (simp add: env0_def)
  then show ?thesis
    using c g c0 by (simp add: stored_extra_def getDefaultConfig_def)
qed

subsection \<open>What the reconciliation methods leave alone\<close>

lemma engine_step_refl: "engine_step s s"
  by (simp add: engine_step_def)

lemma engine_step_trans: "engine_step s s1 \<Longrightarrow> engine_step s1 s2 \<Longrightarrow> engine_step s s2"
  by (auto simp: engine_step_def)

lemma engine_step_table: "engine_step s s1 \<Longrightarrow> engine_step s (s1\<lparr>injectedMessages := t\<rparr>)"
  by (simp add: engine_step_def)

lemma engine_step_cache: "engine_step s s1 \<Longrightarrow> engine_step s (s1\<lparr>userCache := t\<rparr>)"
  by (simp add: engine_step_def)

lemma engine_step_log: "\<not> is_write c \<Longrightarrow> engine_step s (log_call c s)"
  by (simp add: engine_step_def log_call_def)

lemma host_call_snd: "snd (host_call c out s) = log_call c s"
  by (simp add: host_call_def split: option.splits)

lemma host_call_fst: "fst (host_call c out s) = (case out of Some err \<Rightarrow> Inl err | None \<Rightarrow> Inr ())"
  by (simp add: host_call_def split: option.splits)

lemma dispatchMessageDelete_step: "engine_step s (snd (dispatchMessageDelete e c m s))"
  by (simp add: dispatchMessageDelete_def host_call_snd engine_step_log engine_step_refl
      split: option.splits)

lemma dispatchMessageDelete_table:
  "injectedMessages (snd (dispatchMessageDelete e c m s)) = injectedMessages s"
  "userCache (snd (dispatchMessageDelete e c m s)) = userCache s"
  by (simp_all add: dispatchMessageDelete_def host_call_snd log_call_def split: option.splits)

lemma injectFakeMessage_step: "engine_step s (snd (injectFakeMessage e m s))"
  by (simp add: injectFakeMessage_def host_call_snd engine_step_log engine_step_refl
      split: option.splits)

lemma injectFakeMessage_table:
  "injectedMessages (snd (injectFakeMessage e m s)) = injectedMessages s"
  "userCache (snd (injectFakeMessage e m s)) = userCache s"
  by (simp_all add: injectFakeMessage_def host_call_snd log_call_def split: option.splits)

lemma removeFakeMessage_step: "engine_step s (snd (removeFakeMessage e c s))"
proof -
  have "\<And>m. engine_step s (snd (dispatchMessageDelete e c m s))"
    by (rule dispatchMessageDelete_step)
  then show ?thesis
    by (auto simp: removeFakeMessage_def engine_step_refl engine_step_table
        split: option.splits prod.splits sum.splits dest: arg_cong [where f = snd])
       (metis engine_step_table snd_conv)+
qed

lemma removeFakeMessage_cases:
  obtains (none) "map_of (injectedMessages s) c = None" "removeFakeMessage e c s = (Inr (), s)"
  | (falsy) "map_of (injectedMessages s) c = Some []" "removeFakeMessage e c s = (Inr (), s)"
  | (threw) m err where "map_of (injectedMessages s) c = Some m" "m \<noteq> []"
      "fst (dispatchMessageDelete e c m s) = Inl err"
      "removeFakeMessage e c s = (Inl err, snd (dispatchMessageDelete e c m s))"
  | (removed) m where "map_of (injectedMessages s) c = Some m" "m \<noteq> []"
      "fst (dispatchMessageDelete e c m s) = Inr ()"
      "removeFakeMessage e c s =
         (Inr (), (snd (dispatchMessageDelete e c m s))\<lparr>injectedMessages := AList.delete c (injectedMessages s)\<rparr>)"
proof (cases "map_of (injectedMessages s) c")
  case None
  then show ?thesis using none by (simp add: removeFakeMessage_def)
next
  case (Some m)
  show ?thesis
  proof (cases "m = []")
    case True
    then show ?thesis using Some falsy by (simp add: removeFakeMessage_def)
  next
    case False
    obtain r s1 where d: "dispatchMessageDelete e c m s = (r, s1)" by (cases "dispatchMessageDelete e c m s")
    have t: "injectedMessages s1 = injectedMessages s"
      using dispatchMessageDelete_table(1) [of e c m s] d by simp
    show ?thesis
    proof (cases r)
      case (Inl err)
      then show ?thesis using Some False d threw [of m err] by (simp add: removeFakeMessage_def)
    next
      case (Inr u)
      then show ?thesis using Some False d t removed [of m] by (simp add: removeFakeMessage_def)
    qed
  qed
qed

lemma fetchUser_step: "engine_step s (snd (fetchUser e u s))"
  by (auto simp: fetchUser_def Let_def warn_def engine_step_refl engine_step_cache engine_step_log
      split: option.splits sum.splits)

lemma fetchUser_table: "injectedMessages (snd (fetchUser e u s)) = injectedMessages s"
  by (auto simp: fetchUser_def Let_def warn_def log_call_def split: option.splits sum.splits)

lemma message_after_fetch_snd: "snd (message_after_fetch e c a u s) = s"
  by (simp add: message_after_fetch_def Let_def split: sum.splits)

lemma message_after_fetch_id:
  "message_after_fetch e c a u s = (Inr (Some m), s1) \<Longrightarrow>
     m_id m = MESSAGE_ID_PREFIX @ '':'' @ c \<and> m_channel_id m = c"
  by (auto simp: message_after_fetch_def Let_def split: sum.splits if_splits)

lemma buildFakeMessage_snd:
  "snd (buildFakeMessage e c s) =
     (case get_prop (config s) ''discordId'' of
        JStr d \<Rightarrow> snd (fetchUser e (Some (trim d)) s)
      | _ \<Rightarrow> s)"
proof (cases "get_prop (config s) ''discordId''")
  case (JStr d)
  obtain r s1 where f: "fetchUser e (Some (trim d)) s = (r, s1)"
    by (cases "fetchUser e (Some (trim d)) s")
  show ?thesis
    by (cases r) (simp_all add: buildFakeMessage_def JStr f message_after_fetch_snd)
qed (simp_all add: buildFakeMessage_def)

lemma buildFakeMessage_step: "engine_step s (snd (buildFakeMessage e c s))"
  by (simp add: buildFakeMessage_snd fetchUser_step engine_step_refl split: jsval.splits)

lemma buildFakeMessage_table: "injectedMessages (snd (buildFakeMessage e c s)) = injectedMessages s"
  by (simp add: buildFakeMessage_snd fetchUser_table split: jsval.splits)

lemma buildFakeMessage_id:
  assumes "buildFakeMessage e c s = (Inr (Some m), s1)"
  shows "m_id m = MESSAGE_ID_PREFIX @ '':'' @ c \<and> m_channel_id m = c"
proof (cases "get_prop (config s) ''discordId''")
  case (JStr d)
  obtain r s2 where f: "fetchUser e (Some (trim d)) s = (r, s2)"
    by (cases "fetchUser e (Some (trim d)) s")
  show ?thesis
  proof (cases r)
    case (Inl err)
    then show ?thesis using assms JStr f by (simp add: buildFakeMessage_def)
  next
    case (Inr u)
    then have "message_after_fetch e c (trim d) u s2 = (Inr (Some m), s1)"
      using assms JStr f by (simp add: buildFakeMessage_def)
    then show ?thesis by (rule message_after_fetch_id)
  qed
qed (use assms in \<open>simp_all add: buildFakeMessage_def\<close>)

lemma build_and_inject_cases:
  obtains (build_raised) err where
      "fst (buildFakeMessage e c s) = Inl err"
      "build_and_inject e c s = (Inl err, snd (buildFakeMessage e c s))"
  | (no_message)
      "fst (buildFakeMessage e c s) = Inr None"
      "build_and_inject e c s = (Inr (), snd (buildFakeMessage e c s))"
  | (inject_raised) m err where
      "fst (buildFakeMessage e c s) = Inr (Some m)"
      "fst (injectFakeMessage e m (snd (buildFakeMessage e c s))) = Inl err"
      "build_and_inject e c s = (Inl err, snd (injectFakeMessage e m (snd (buildFakeMessage e c s))))"
  | (created) m where
      "fst (buildFakeMessage e c s) = Inr (Some m)"
      "fst (injectFakeMessage e m (snd (buildFakeMessage e c s))) = Inr ()"
      "build_and_inject e c s =
         (Inr (), (snd (injectFakeMessage e m (snd (buildFakeMessage e c s))))
                    \<lparr>injectedMessages := AList.update c (MESSAGE_ID_PREFIX @ '':'' @ c) (injectedMessages s)\<rparr>)"
proof -
  obtain r s1 where b: "buildFakeMessage e c s = (r, s1)" by (cases "buildFakeMessage e c s")
  show ?thesis
  proof (cases r)
    case (Inl err)
    then show ?thesis using b build_raised [of err] by (simp add: build_and_inject_def)
  next
    case (Inr mo)
    show ?thesis
    proof (cases mo)
      case None
      then show ?thesis using b Inr no_message by (simp add: build_and_inject_def)
    next
      case (Some m)
      obtain r2 s2 where i: "injectFakeMessage e m s1 = (r2, s2)" by (cases "injectFakeMessage e m s1")
      have id: "m_id m = MESSAGE_ID_PREFIX @ '':'' @ c"
        using buildFakeMessage_id [of e c s m s1] b Inr Some by simp
      have t: "injectedMessages s2 = injectedMessages s"
        using injectFakeMessage_table(1) [of e m s1] buildFakeMessage_table [of e c s] b i by simp
      show ?thesis
      proof (cases r2)
        case (Inl err)
        then show ?thesis using b Inr Some i inject_raised [of m err] by (simp add: build_and_inject_def)
      next
        case r2: (Inr u)
        then show ?thesis using b Inr Some i id t created [of m] by (simp add: build_and_inject_def)
      qed
    qed
  qed
qed

lemma build_and_inject_step: "engine_step s (snd (build_and_inject e c s))"
proof (cases rule: build_and_inject_cases [of e c s])
  case (build_raised err)
  then show ?thesis by (simp add: buildFakeMessage_step)
next
  case no_message
  then show ?thesis by (simp add: buildFakeMessage_step)
next
  case (inject_raised m err)
  then show ?thesis
    using engine_step_trans [OF buildFakeMessage_step injectFakeMessage_step] by simp
next
  case (created m)
  then show ?thesis
    using engine_step_trans [OF buildFakeMessage_step injectFakeMessage_step]
    by (simp add: engine_step_table)
qed

lemma build_and_inject_raised_table:
  "fst (build_and_inject e c s) = Inl err \<Longrightarrow>
     injectedMessages (snd (build_and_inject e c s)) = injectedMessages s"
  by (cases rule: build_and_inject_cases [of e c s])
     (simp_all add: buildFakeMessage_table injectFakeMessage_table)

lemma build_and_inject_table:
  "injectedMessages (snd (build_and_inject e c s)) = injectedMessages s
   \<or> injectedMessages (snd (build_and_inject e c s)) =
        AList.update c (MESSAGE_ID_PREFIX @ '':'' @ c) (injectedMessages s)"
  by (cases rule: build_and_inject_cases [of e c s])
     (simp_all add: buildFakeMessage_table injectFakeMessage_table)

lemma decide_and_create_step: "engine_step s (snd (decide_and_create e c s))"
proof (cases "shouldRenderInChannel (config s) c")
  case (Inl err)
  then show ?thesis by (simp add: decide_and_create_def engine_step_refl)
next
  case (Inr b)
  obtain r s1 where bi: "build_and_inject e c s = (r, s1)" by (cases "build_and_inject e c s")
  then have st: "engine_step s s1" using build_and_inject_step [of s e c] by simp
  have "engine_step s1 (warn ''Failed to create fake message'' s1)"
    by (simp add: warn_def engine_step_log)
  then have "engine_step s (warn ''Failed to create fake message'' s1)"
    using st engine_step_trans by blast
  then show ?thesis
    using Inr bi st by (cases b; cases r) (simp_all add: decide_and_create_def engine_step_refl)
qed

lemma decide_and_create_table:
  "injectedMessages (snd (decide_and_create e c s)) = injectedMessages s
   \<or> (shouldRenderInChannel (config s) c = Inr True
      \<and> injectedMessages (snd (decide_and_create e c s)) =
           AList.update c (MESSAGE_ID_PREFIX @ '':'' @ c) (injectedMessages s))"
proof (cases "shouldRenderInChannel (config s) c")
  case (Inl err)
  then show ?thesis by (simp add: decide_and_create_def)
next
  case (Inr b)
  obtain r s1 where bi: "build_and_inject e c s = (r, s1)" by (cases "build_and_inject e c s")
  have t: "injectedMessages s1 = injectedMessages s
           \<or> injectedMessages s1 = AList.update c (MESSAGE_ID_PREFIX @ '':'' @ c) (injectedMessages s)"
    using build_and_inject_table [of e c s] bi by simp
  have r: "\<And>err. r = Inl err \<Longrightarrow> injectedMessages s1 = injectedMessages s"
    using build_and_inject_raised_table [of e c s] bi by simp
  show ?thesis
    using Inr bi t r
    by (cases b; cases r) (auto simp: decide_and_create_def warn_def log_call_def)
qed

lemma refreshChannel_step: "engine_step s (snd (refreshChannel e c s))"
proof (cases "c = []")
  case True
  then show ?thesis by (simp add: refreshChannel_def engine_step_refl)
next
  case False
  obtain r s1 where rm: "removeFakeMessage e c s = (r, s1)" by (cases "removeFakeMessage e c s")
  then have st: "engine_step s s1" using removeFakeMessage_step [of s e c] by simp
  show ?thesis
    using False rm st engine_step_trans [OF st decide_and_create_step [of s1 e c]]
    by (cases r) (simp_all add: refreshChannel_def)
qed

lemma set_update_subset: "x \<in> set (AList.update k v al) \<Longrightarrow> x = (k, v) \<or> x \<in> set al"
  by (induction al) (auto split: if_splits)

lemma table_ok_delete:
  "table_ok s \<Longrightarrow> injectedMessages s1 = AList.delete c (injectedMessages s) \<Longrightarrow> table_ok s1"
proof -
  assume ok: "table_ok s" and eq: "injectedMessages s1 = AList.delete c (injectedMessages s)"
  have "distinct (map fst (AList.delete c (injectedMessages s)))"
    using ok by (simp add: table_ok_def distinct_delete)
  moreover have "set (AList.delete c (injectedMessages s)) \<subseteq> set (injectedMessages s)"
    by (auto simp: AList.delete_eq)
  ultimately show ?thesis
    using ok eq by (auto simp: table_ok_def list_all_iff)
qed

lemma table_ok_update:
  assumes "table_ok s" "c \<noteq> []" "m \<noteq> []"
    and "injectedMessages s1 = AList.update c m (injectedMessages s)"
  shows "table_ok s1"
  using assms
  by (auto simp: table_ok_def distinct_update list_all_iff dest!: set_update_subset)

lemma table_ok_same: "table_ok s \<Longrightarrow> injectedMessages s1 = injectedMessages s \<Longrightarrow> table_ok s1"
  by (simp add: table_ok_def)

lemma table_ok_empty: "injectedMessages s = [] \<Longrightarrow> table_ok s"
  by (simp add: table_ok_def)

lemma table_ok_lookup:
  "table_ok s \<Longrightarrow> map_of (injectedMessages s) c = Some m \<Longrightarrow> c \<noteq> [] \<and> m \<noteq> []"
  by (auto simp: table_ok_def list_all_iff dest: map_of_SomeD)

lemma table_ok_count:
  assumes "table_ok s"
  shows "length (filter (\<lambda>p. fst p = c) (injectedMessages s)) \<le> 1"
proof -
  have "distinct (map fst xs) \<Longrightarrow> length (filter (\<lambda>p. fst p = c) xs) \<le> 1" for xs :: "(string \<times> string) list"
  proof (induction xs)
    case Nil
    show ?case by simp
  next
    case (Cons x xs)
    have "filter (\<lambda>p. fst p = c) xs = []" if "fst x = c"
    proof -
      have "c \<notin> fst ` set xs" using Cons.prems that by auto
      then have "\<forall>p\<in>set xs. fst p \<noteq> c" by (metis image_eqI)
      then show ?thesis by (simp add: filter_empty_conv)
    qed
    then show ?case using Cons by (cases "fst x = c") simp_all
  qed
  then show ?thesis using assms by (simp add: table_ok_def)
qed

lemma removeFakeMessage_table:
  "injectedMessages (snd (removeFakeMessage e c s)) = injectedMessages s
   \<or> (fst (removeFakeMessage e c s) = Inr ()
      \<and> injectedMessages (snd (removeFakeMessage e c s)) = AList.delete c (injectedMessages s))"
  by (cases rule: removeFakeMessage_cases [of s c e]) (simp_all add: dispatchMessageDelete_table)

lemma removeFakeMessage_absent:
  assumes "table_ok s" "removeFakeMessage e c s = (Inr u, s1)"
  shows "map_of (injectedMessages s1) c = None"
proof (cases rule: removeFakeMessage_cases [of s c e])
  case none
  then show ?thesis using assms by simp
next
  case falsy
  then show ?thesis using assms table_ok_lookup [of s c "[]"] by simp
next
  case (threw m err)
  then show ?thesis using assms by simp
next
  case (removed m)
  then show ?thesis using assms by (auto simp: delete_conv')
qed

lemma removeFakeMessage_table_ok: "table_ok s \<Longrightarrow> table_ok (snd (removeFakeMessage e c s))"
  using removeFakeMessage_table [of e c s] table_ok_same table_ok_delete by blast

lemma MESSAGE_ID_nonempty: "MESSAGE_ID_PREFIX @ '':'' @ c \<noteq> []"
  by (simp add: MESSAGE_ID_PREFIX_def)

lemma decide_and_create_table_ok:
  "table_ok s \<Longrightarrow> c \<noteq> [] \<Longrightarrow> table_ok (snd (decide_and_create e c s))"
  using decide_and_create_table [of e c s] table_ok_same table_ok_update MESSAGE_ID_nonempty
  by blast

lemma refreshChannel_table_ok:
  assumes "table_ok s"
  shows "table_ok (snd (refreshChannel e c s))"
proof (cases "c = []")
  case True
  then show ?thesis using assms by (simp add: refreshChannel_def)
next
  case False
  obtain r s1 where rm: "removeFakeMessage e c s = (r, s1)" by (cases "removeFakeMessage e c s")
  then have ok: "table_ok s1" using removeFakeMessage_table_ok [OF assms, of e c] by simp
  show ?thesis
    using False rm ok decide_and_create_table_ok [OF ok False, of e]
    by (cases r) (simp_all add: refreshChannel_def)
qed

lemma init_state_table_ok: "table_ok init_state"
  by (simp add: table_ok_def init_state_def)

subsection \<open>Retract, then decide\<close>

lemma isSnowflake_case:
  "isSnowflake v = (case v of JStr d \<Rightarrow> snowflake_re (trim d) | _ \<Rightarrow> False)"
  by (cases v) simp_all

lemma shouldRenderInChannel_True_iff:
  "shouldRenderInChannel cfg c = Inr True \<longleftrightarrow>
     truthy (get_prop cfg ''enabled'')
     \<and> (case get_prop cfg ''discordId'' of JStr d \<Rightarrow> snowflake_re (trim d) | _ \<Rightarrow> False)
     \<and> (case get_prop cfg ''messageContent'' of JStr t \<Rightarrow> trim t \<noteq> [] | _ \<Rightarrow> False)
     \<and> (get_prop cfg ''channelMode'' = JStr ''specific'' \<longrightarrow>
           get_prop cfg ''targetChannelId'' = JStr c \<and> snowflake_re (trim c))"
proof (cases "get_prop cfg ''messageContent''")
  case (JStr t)
  then show ?thesis
    by (auto simp: shouldRenderInChannel_def isSnowflake_case split: jsval.splits)
qed (simp_all add: shouldRenderInChannel_def)

lemma dispatchMessageDelete_calls:
  "calls (snd (dispatchMessageDelete e c m s)) =
     calls s @ (case deleteMessage e of
                  Some f \<Rightarrow> [DeleteMessage c m]
                | None \<Rightarrow> (case dispatch e of
                             Some d \<Rightarrow> [Dispatch (MessageDelete m c)]
                           | None \<Rightarrow> []))"
  by (simp add: dispatchMessageDelete_def host_call_snd log_call_def split: option.splits)

lemma removeFakeMessage_calls:
  "calls (snd (removeFakeMessage e c s)) =
     calls s @ (case map_of (injectedMessages s) c of
                  None \<Rightarrow> []
                | Some m \<Rightarrow> if m = [] then []
                   else (case deleteMessage e of
                           Some f \<Rightarrow> [DeleteMessage c m]
                         | None \<Rightarrow> (case dispatch e of
                                      Some d \<Rightarrow> [Dispatch (MessageDelete m c)]
                                    | None \<Rightarrow> [])))"
  by (cases rule: removeFakeMessage_cases [of s c e])
     (simp_all add: dispatchMessageDelete_calls)

lemma removeFakeMessage_no_injection:
  "filter is_injection (calls (snd (removeFakeMessage e c s))) = filter is_injection (calls s)"
  by (simp add: removeFakeMessage_calls split: option.splits)

lemma removeFakeMessage_config: "config (snd (removeFakeMessage e c s)) = config s"
  using removeFakeMessage_step [of s e c] by (simp add: engine_step_def)

lemma map_of_delete_None:
  "map_of (AList.delete c al) d \<noteq> None \<Longrightarrow> map_of al d \<noteq> None"
  by (cases "d = c") (simp_all add: delete_conv')

lemma removeFakeMessage_no_new_entry:
  "map_of (injectedMessages (snd (removeFakeMessage e c s))) d \<noteq> None \<Longrightarrow>
     map_of (injectedMessages s) d \<noteq> None"
  using removeFakeMessage_table [of e c s] map_of_delete_None by metis

lemma table_ok_no_empty_key: "table_ok s \<Longrightarrow> map_of (injectedMessages s) [] = None"
  using table_ok_lookup [of s "[]"] by (cases "map_of (injectedMessages s) []") auto

text \<open>
  Claim C1. In every state whose Active-Injection Table is well formed, the table holds at
  most one entry for \<open>c\<close> after \<^verbatim>\<open>refreshChannel(c)\<close>, whatever its outcome. For a non-empty
  \<open>c\<close> the method is the retraction followed by the decision: if \<^verbatim>\<open>removeFakeMessage\<close>
  throws, so does \<^verbatim>\<open>refreshChannel\<close>, and otherwise the rendering decision and the build run on a state
  whose table has no entry for \<open>c\<close>. A tracked id \<open>m\<close> is retracted by one call of the
  removal collaborator with \<open>(c, m)\<close> (\<^verbatim>\<open>deleteMessage\<close>, or the MESSAGE_DELETE dispatch when
  \<^verbatim>\<open>deleteMessage\<close> is missing) and by deleting the table entry, and every other call of
  the invocation comes after it.
\<close>

theorem refreshChannel_retract_then_decide:
  assumes "table_ok s"
  shows "length (filter (\<lambda>p. fst p = c) (injectedMessages (snd (refreshChannel e c s)))) \<le> 1
    \<and> (c \<noteq> [] \<longrightarrow>
        (case removeFakeMessage e c s of
           (Inl err, s1) \<Rightarrow> refreshChannel e c s = (Inl err, s1)
         | (Inr u, s1) \<Rightarrow> map_of (injectedMessages s1) c = None
                          \<and> refreshChannel e c s = decide_and_create e c s1))
    \<and> (\<forall>m. map_of (injectedMessages s) c = Some m \<longrightarrow>
         (\<forall>f. deleteMessage e = Some f \<longrightarrow>
             calls (snd (removeFakeMessage e c s)) = calls s @ [DeleteMessage c m])
       \<and> (\<forall>d. deleteMessage e = None \<and> dispatch e = Some d \<longrightarrow>
             calls (snd (removeFakeMessage e c s)) = calls s @ [Dispatch (MessageDelete m c)])
       \<and> (fst (removeFakeMessage e c s) = Inr () \<longrightarrow>
             injectedMessages (snd (removeFakeMessage e c s)) = AList.delete c (injectedMessages s)))
    \<and> (\<exists>tr. calls (snd (refreshChannel e c s)) = calls (snd (removeFakeMessage e c s)) @ tr)"
proof -
  have one: "length (filter (\<lambda>p. fst p = c) (injectedMessages (snd (refreshChannel e c s)))) \<le> 1"
    using refreshChannel_table_ok [OF assms] by (rule table_ok_count)
  obtain r s1 where rm: "removeFakeMessage e c s = (r, s1)" by (cases "removeFakeMessage e c s")
  have two: "c \<noteq> [] \<longrightarrow>
        (case removeFakeMessage e c s of
           (Inl err, s1) \<Rightarrow> refreshChannel e c s = (Inl err, s1)
         | (Inr u, s1) \<Rightarrow> map_of (injectedMessages s1) c = None
                          \<and> refreshChannel e c s = decide_and_create e c s1)"
    using rm removeFakeMessage_absent [OF assms, of e c _ s1]
    by (cases r) (simp_all add: refreshChannel_def)
  have three: "\<forall>m. map_of (injectedMessages s) c = Some m \<longrightarrow>
         (\<forall>f. deleteMessage e = Some f \<longrightarrow>
             calls (snd (removeFakeMessage e c s)) = calls s @ [DeleteMessage c m])
       \<and> (\<forall>d. deleteMessage e = None \<and> dispatch e = Some d \<longrightarrow>
             calls (snd (removeFakeMessage e c s)) = calls s @ [Dispatch (MessageDelete m c)])
       \<and> (fst (removeFakeMessage e c s) = Inr () \<longrightarrow>
             injectedMessages (snd (removeFakeMessage e c s)) = AList.delete c (injectedMessages s))"
  proof (intro allI impI)
    fix m
    assume m: "map_of (injectedMessages s) c = Some m"
    then have ne: "m \<noteq> []" using table_ok_lookup [OF assms] by blast
    have del: "fst (removeFakeMessage e c s) = Inr () \<longrightarrow>
             injectedMessages (snd (removeFakeMessage e c s)) = AList.delete c (injectedMessages s)"
      using m ne by (cases rule: removeFakeMessage_cases [of s c e]) simp_all
    show "(\<forall>f. deleteMessage e = Some f \<longrightarrow>
             calls (snd (removeFakeMessage e c s)) = calls s @ [DeleteMessage c m])
       \<and> (\<forall>d. deleteMessage e = None \<and> dispatch e = Some d \<longrightarrow>
             calls (snd (removeFakeMessage e c s)) = calls s @ [Dispatch (MessageDelete m c)])
       \<and> (fst (removeFakeMessage e c s) = Inr () \<longrightarrow>
             injectedMessages (snd (removeFakeMessage e c s)) = AList.delete c (injectedMessages s))"
      using m ne del by (simp add: removeFakeMessage_calls)
  qed
  have four: "\<exists>tr. calls (snd (refreshChannel e c s)) = calls (snd (removeFakeMessage e c s)) @ tr"
  proof (cases "c = []")
    case True
    then show ?thesis
      using table_ok_no_empty_key [OF assms] by (simp add: refreshChannel_def removeFakeMessage_def)
  next
    case False
    have "\<exists>tr. calls (snd (decide_and_create e c s1)) = calls s1 @ tr"
      using decide_and_create_step [of s1 e c] by (auto simp: engine_step_def)
    then show ?thesis using False rm by (cases r) (simp_all add: refreshChannel_def)
  qed
  show ?thesis using one two three four by blast
qed

lemma refreshChannel_not_rendered:
  assumes "table_ok s" and "refreshChannel e c s = (r, s')"
    and ng: "shouldRenderInChannel (config s) c \<noteq> Inr True"
  shows "filter is_injection (calls s') = filter is_injection (calls s)
            \<and> (\<forall>d. map_of (injectedMessages s') d \<noteq> None \<longrightarrow> map_of (injectedMessages s) d \<noteq> None)
            \<and> (r = Inr () \<longrightarrow> map_of (injectedMessages s') c = None)"
proof (cases "c = []")
  case True
  then show ?thesis
    using table_ok_no_empty_key [OF assms(1)] assms(2) by (auto simp: refreshChannel_def)
next
  case False
  obtain r1 s1 where rm: "removeFakeMessage e c s = (r1, s1)" by (cases "removeFakeMessage e c s")
  have cfg: "config s1 = config s" using removeFakeMessage_config [of e c s] rm by simp
  have inj: "filter is_injection (calls s1) = filter is_injection (calls s)"
    using removeFakeMessage_no_injection [of e c s] rm by simp
  have new: "\<forall>d. map_of (injectedMessages s1) d \<noteq> None \<longrightarrow> map_of (injectedMessages s) d \<noteq> None"
    using removeFakeMessage_no_new_entry [of e c s] rm by simp
  show ?thesis
  proof (cases r1)
    case (Inl err)
    then have "r = Inl err" "s' = s1" using False rm assms(2) by (simp_all add: refreshChannel_def)
    then show ?thesis using inj new by simp
  next
    case (Inr u)
    then have dc: "decide_and_create e c s1 = (r, s')"
      using False rm assms(2) by (simp add: refreshChannel_def)
    have abs: "map_of (injectedMessages s1) c = None"
      using removeFakeMessage_absent [OF assms(1)] rm Inr by blast
    have "s' = s1"
      using dc ng cfg
      by (cases "shouldRenderInChannel (config s) c")
         (auto simp: decide_and_create_def split: bool.splits)
    then show ?thesis using inj new abs by simp
  qed
qed

text \<open>
  Claim C3. Unless the configuration is enabled, discordId is a string that matches
  \<^verbatim>\<open>^\d{5,}$\<close> after trimming, messageContent is a string that is non-empty after trimming
  and, when channelMode is "specific", targetChannelId equals \<open>c\<close> and is a valid
  identifier (the test trims it, as it trims discordId), \<^verbatim>\<open>refreshChannel(c)\<close> creates no
  item: it makes no injection call, records no entry that was not there, and when it returns
  normally \<open>c\<close> is Absent. In particular, with enabled false no channel becomes Active.
\<close>

theorem refreshChannel_gate:
  assumes "table_ok s" and "refreshChannel e c s = (r, s')"
  shows "(\<not> (truthy (get_prop (config s) ''enabled'')
          \<and> (case get_prop (config s) ''discordId'' of JStr d \<Rightarrow> snowflake_re (trim d) | _ \<Rightarrow> False)
          \<and> (case get_prop (config s) ''messageContent'' of JStr t \<Rightarrow> trim t \<noteq> [] | _ \<Rightarrow> False)
          \<and> (get_prop (config s) ''channelMode'' = JStr ''specific'' \<longrightarrow>
                get_prop (config s) ''targetChannelId'' = JStr c \<and> snowflake_re (trim c)))
        \<longrightarrow> filter is_injection (calls s') = filter is_injection (calls s)
            \<and> (\<forall>d. map_of (injectedMessages s') d \<noteq> None \<longrightarrow> map_of (injectedMessages s) d \<noteq> None)
            \<and> (r = Inr () \<longrightarrow> map_of (injectedMessages s') c = None))
     \<and> (\<not> truthy (get_prop (config s) ''enabled'') \<longrightarrow>
            (\<forall>d. map_of (injectedMessages s') d \<noteq> None \<longrightarrow> map_of (injectedMessages s) d \<noteq> None))"
proof -
  have closed: "filter is_injection (calls s') = filter is_injection (calls s)
            \<and> (\<forall>d. map_of (injectedMessages s') d \<noteq> None \<longrightarrow> map_of (injectedMessages s) d \<noteq> None)
            \<and> (r = Inr () \<longrightarrow> map_of (injectedMessages s') c = None)"
    if "shouldRenderInChannel (config s) c \<noteq> Inr True"
    using refreshChannel_not_rendered [OF assms that] .
  have g: "\<not> (truthy (get_prop (config s) ''enabled'')
          \<and> (case get_prop (config s) ''discordId'' of JStr d \<Rightarrow> snowflake_re (trim d) | _ \<Rightarrow> False)
          \<and> (case get_prop (config s) ''messageContent'' of JStr t \<Rightarrow> trim t \<noteq> [] | _ \<Rightarrow> False)
          \<and> (get_prop (config s) ''channelMode'' = JStr ''specific'' \<longrightarrow>
                get_prop (config s) ''targetChannelId'' = JStr c \<and> snowflake_re (trim c)))
        \<Longrightarrow> shouldRenderInChannel (config s) c \<noteq> Inr True"
    by (simp only: shouldRenderInChannel_True_iff) blast
  have d: "\<not> truthy (get_prop (config s) ''enabled'') \<Longrightarrow> shouldRenderInChannel (config s) c \<noteq> Inr True"
    by (simp add: shouldRenderInChannel_def)
  show ?thesis using closed g d by blast
qed

subsection \<open>Identity cache and item creation\<close>

lemma fetchUser_empty: "trimmed_id u = [] \<Longrightarrow> fetchUser e u s = (Inr JNull, s)"
  by (simp add: fetchUser_def trimmed_id_def)

lemma fetchUser_hit:
  "trimmed_id u \<noteq> [] \<Longrightarrow> map_of (userCache s) (trimmed_id u) = Some v \<Longrightarrow>
     fetchUser e u s = (Inr v, s)"
  by (simp add: fetchUser_def trimmed_id_def)

lemma fetchUser_sync_raises:
  "trimmed_id u \<noteq> [] \<Longrightarrow> map_of (userCache s) (trimmed_id u) = None \<Longrightarrow>
     store_getUser e (trimmed_id u) = Inl err \<Longrightarrow> fetchUser e u s = (Inl err, s)"
  by (simp add: fetchUser_def trimmed_id_def)

lemma fetchUser_sync_resolves:
  "trimmed_id u \<noteq> [] \<Longrightarrow> map_of (userCache s) (trimmed_id u) = None \<Longrightarrow>
     store_getUser e (trimmed_id u) = Inr w \<Longrightarrow> truthy w \<Longrightarrow>
     fetchUser e u s = (Inr w, s\<lparr>userCache := AList.update (trimmed_id u) w (userCache s)\<rparr>)"
  by (cases w) (simp_all add: fetchUser_def trimmed_id_def nco_def)

lemma fetchUser_async_resolves:
  "trimmed_id u \<noteq> [] \<Longrightarrow> map_of (userCache s) (trimmed_id u) = None \<Longrightarrow>
     store_getUser e (trimmed_id u) = Inr w0 \<Longrightarrow> \<not> truthy w0 \<Longrightarrow>
     store_fetchUser e = Some f \<Longrightarrow> f (trimmed_id u) = Inr w \<Longrightarrow> truthy w \<Longrightarrow>
     fetchUser e u s = (Inr w, s\<lparr>userCache := AList.update (trimmed_id u) w (userCache s)\<rparr>)"
  by (cases w) (simp_all add: fetchUser_def trimmed_id_def nco_def)

lemma fetchUser_unresolved:
  assumes "trimmed_id u \<noteq> []" "map_of (userCache s) (trimmed_id u) = None"
    and "store_getUser e (trimmed_id u) = Inr w0" "nullish w0"
    and "store_fetchUser e = None
         \<or> (\<exists>f. store_fetchUser e = Some f
               \<and> (case f (trimmed_id u) of Inl err \<Rightarrow> True | Inr w \<Rightarrow> nullish w))"
  shows "fst (fetchUser e u s) = Inr (placeholder_user (trimmed_id u))
         \<and> userCache (snd (fetchUser e u s)) = userCache s"
proof -
  have f0: "\<not> truthy w0" using assms(4) by (cases w0) simp_all
  have nt: "\<And>w. nullish w \<Longrightarrow> \<not> truthy w" by (case_tac w) simp_all
  show ?thesis
  proof (cases "store_fetchUser e")
    case None
    then show ?thesis
      using assms(1-4) f0
      by (simp add: fetchUser_def trimmed_id_def [symmetric] nco_def placeholder_user_def)
  next
    case (Some f)
    then have c: "case f (trimmed_id u) of Inl err \<Rightarrow> True | Inr w \<Rightarrow> nullish w"
      using assms(5) by auto
    show ?thesis
    proof (cases "f (trimmed_id u)")
      case (Inl err)
      then show ?thesis
        using assms(1-4) f0 Some
        by (simp add: fetchUser_def trimmed_id_def [symmetric] nco_def placeholder_user_def
            warn_def log_call_def)
    next
      case (Inr w)
      then have "nullish w" using c by simp
      then show ?thesis
        using assms(1-4) f0 Some Inr nt [of w]
        by (simp add: fetchUser_def trimmed_id_def [symmetric] nco_def placeholder_user_def)
    qed
  qed
qed

lemma truthy_not_nullish: "truthy v \<Longrightarrow> \<not> nullish v"
  by (cases v) simp_all

lemma fetchUser_miss_returns:
  assumes "trimmed_id u \<noteq> []" "map_of (userCache s) (trimmed_id u) = None"
    and "store_getUser e (trimmed_id u) = Inr w0"
  shows "\<exists>v. fst (fetchUser e u s) = Inr v \<and> \<not> nullish v"
proof -
  have "\<exists>v s1. fetchUser e u s = (Inr (nco v (placeholder_user (trimmed_id u))), s1)"
    using assms
    by (auto simp: fetchUser_def trimmed_id_def [symmetric] placeholder_user_def Let_def
        split: option.splits sum.splits)
  moreover have "\<And>v. \<not> nullish (nco v (placeholder_user (trimmed_id u)))"
    by (simp add: nco_def placeholder_user_def)
  ultimately show ?thesis by (metis fst_conv)
qed

lemma fetchUser_hit_truthy:
  "cache_ok s \<Longrightarrow> map_of (userCache s) t = Some v \<Longrightarrow> truthy v"
  using map_of_SomeD [of "userCache s" t v] by (force simp: cache_ok_def list_all_iff)

lemma fetchUser_total:
  assumes "store_getUser e (trimmed_id u) = Inr w0"
  shows "\<exists>v. fst (fetchUser e u s) = Inr v"
proof (cases "trimmed_id u = []")
  case True
  then show ?thesis by (simp add: fetchUser_empty)
next
  case False
  show ?thesis
  proof (cases "map_of (userCache s) (trimmed_id u)")
    case None
    then show ?thesis using fetchUser_miss_returns [OF False None assms] by blast
  next
    case (Some v)
    then show ?thesis using fetchUser_hit [OF False Some] by simp
  qed
qed

lemma fetchUser_cache_ok: "cache_ok s \<Longrightarrow> cache_ok (snd (fetchUser e u s))"
  by (auto simp: fetchUser_def Let_def cache_ok_def list_all_iff warn_def log_call_def
      split: option.splits sum.splits dest!: set_update_subset)

text \<open>
  Claim C6, amended. \<^verbatim>\<open>fetchUser\<close> trims its argument. An empty trimmed id gives null and
  changes nothing; a cache hit gives the cached value (non-null when the cache holds only
  truthy values, as it always does) and changes nothing. On a miss: if the synchronous
  lookup throws, \<^verbatim>\<open>fetchUser\<close> throws; otherwise the result is non-null; a truthy identity
  from the synchronous lookup, or from the asynchronous fetch when the lookup gave a falsy
  value, is returned and stored under the trimmed id; and when nothing resolves (the lookup
  gives null or undefined, the fetch is missing, rejects or gives null or undefined) the
  placeholder \<open>{id: trimmed}\<close> is returned and the cache is left as it was.
\<close>

theorem fetchUser_results:
  "(trimmed_id u = [] \<longrightarrow> fetchUser e u s = (Inr JNull, s))
   \<and> (\<forall>v. trimmed_id u \<noteq> [] \<and> map_of (userCache s) (trimmed_id u) = Some v \<longrightarrow>
          fetchUser e u s = (Inr v, s) \<and> (cache_ok s \<longrightarrow> \<not> nullish v))
   \<and> (trimmed_id u \<noteq> [] \<and> map_of (userCache s) (trimmed_id u) = None \<longrightarrow>
        (\<forall>err. store_getUser e (trimmed_id u) = Inl err \<longrightarrow> fetchUser e u s = (Inl err, s))
      \<and> (\<forall>w0. store_getUser e (trimmed_id u) = Inr w0 \<longrightarrow>
            (\<exists>v. fst (fetchUser e u s) = Inr v \<and> \<not> nullish v))
      \<and> (\<forall>w. store_getUser e (trimmed_id u) = Inr w \<and> truthy w \<longrightarrow>
            fetchUser e u s = (Inr w, s\<lparr>userCache := AList.update (trimmed_id u) w (userCache s)\<rparr>))
      \<and> (\<forall>w0 f w. store_getUser e (trimmed_id u) = Inr w0 \<and> \<not> truthy w0
                  \<and> store_fetchUser e = Some f \<and> f (trimmed_id u) = Inr w \<and> truthy w \<longrightarrow>
            fetchUser e u s = (Inr w, s\<lparr>userCache := AList.update (trimmed_id u) w (userCache s)\<rparr>))
      \<and> (\<forall>w0. store_getUser e (trimmed_id u) = Inr w0 \<and> nullish w0
              \<and> (store_fetchUser e = None
                  \<or> (\<exists>f. store_fetchUser e = Some f
                        \<and> (case f (trimmed_id u) of Inl err \<Rightarrow> True | Inr w \<Rightarrow> nullish w))) \<longrightarrow>
            fst (fetchUser e u s) = Inr (placeholder_user (trimmed_id u))
            \<and> userCache (snd (fetchUser e u s)) = userCache s))"
  using fetchUser_empty [of u e s] fetchUser_hit [of u s _ e] fetchUser_hit_truthy [of s "trimmed_id u"]
    truthy_not_nullish fetchUser_sync_raises [of u s e] fetchUser_miss_returns [of u s e]
    fetchUser_sync_resolves [of u s e] fetchUser_async_resolves [of u s e]
    fetchUser_unresolved [of u s e]
  by blast

lemma dispatchMessageDelete_returns:
  "collaborators_return e \<Longrightarrow> fst (dispatchMessageDelete e c m s) = Inr ()"
  by (cases "deleteMessage e"; cases "dispatch e")
     (simp_all add: collaborators_return_def dispatchMessageDelete_def host_call_fst)

lemma injectFakeMessage_returns:
  "collaborators_return e \<Longrightarrow> fst (injectFakeMessage e m s) = Inr ()"
  by (cases "receiveMessage e"; cases "dispatch e")
     (simp_all add: collaborators_return_def injectFakeMessage_def host_call_fst)

lemma removeFakeMessage_returns:
  "collaborators_return e \<Longrightarrow> fst (removeFakeMessage e c s) = Inr ()"
  using dispatchMessageDelete_returns [of e c _ s]
  by (cases rule: removeFakeMessage_cases [of s c e]) simp_all

lemma buildEmbeds_mergeWithDefaults: "\<exists>es. buildEmbeds (mergeWithDefaults x) = Inr es"
proof -
  obtain es where "get_prop (mergeWithDefaults x) ''embeds'' = JArr (map entry_obj es)"
    using normalizeEmbeds_shape get_embeds_mergeWithDefaults by metis
  then show ?thesis using buildEmbeds_entries by blast
qed

lemma message_after_fetch_returns:
  assumes "truthy (get_prop (config s) ''messageContent'')"
    and "buildEmbeds (config s) = Inr es" and "store_getChannel e c = Inr ch"
  shows "\<exists>m. message_after_fetch e c a u s = (Inr (Some m), s)"
  using assms by (simp add: message_after_fetch_def Let_def)

lemma fetchUser_config: "config (snd (fetchUser e u s)) = config s"
  using fetchUser_step [of s e u] by (simp add: engine_step_def)

lemma buildFakeMessage_returns:
  assumes "get_prop (config s) ''discordId'' = JStr d"
    and "truthy (get_prop (config s) ''messageContent'')"
    and "buildEmbeds (config s) = Inr es"
    and "collaborators_return e"
  shows "\<exists>m. fst (buildFakeMessage e c s) = Inr (Some m)"
proof -
  obtain w0 where g: "store_getUser e (trimmed_id (Some (trim d))) = Inr w0"
    using assms(4) by (cases "store_getUser e (trimmed_id (Some (trim d)))")
      (auto simp: collaborators_return_def)
  obtain v where v: "fst (fetchUser e (Some (trim d)) s) = Inr v"
    using fetchUser_total [OF g] by blast
  obtain s1 where f: "fetchUser e (Some (trim d)) s = (Inr v, s1)"
    using v by (cases "fetchUser e (Some (trim d)) s") simp
  have cfg: "config s1 = config s" using fetchUser_config [of e "Some (trim d)" s] f by simp
  obtain ch where ch: "store_getChannel e c = Inr ch"
    using assms(4) by (cases "store_getChannel e c") (auto simp: collaborators_return_def)
  obtain m where "message_after_fetch e c (trim d) v s1 = (Inr (Some m), s1)"
    using message_after_fetch_returns [of s1 es e c ch] assms(2,3) cfg ch by auto
  then show ?thesis using assms(1) f by (simp add: buildFakeMessage_def)
qed

lemma build_and_inject_creates:
  assumes "get_prop (config s) ''discordId'' = JStr d"
    and "truthy (get_prop (config s) ''messageContent'')"
    and "buildEmbeds (config s) = Inr es"
    and "collaborators_return e"
  shows "fst (build_and_inject e c s) = Inr ()
         \<and> injectedMessages (snd (build_and_inject e c s)) =
             AList.update c (MESSAGE_ID_PREFIX @ '':'' @ c) (injectedMessages s)"
proof -
  obtain m where m: "fst (buildFakeMessage e c s) = Inr (Some m)"
    using buildFakeMessage_returns [OF assms] by blast
  show ?thesis
    using m injectFakeMessage_returns [OF assms(4)]
    by (cases rule: build_and_inject_cases [of e c s]) simp_all
qed

lemma trim_nonempty: "trim t \<noteq> [] \<Longrightarrow> t \<noteq> []"
  by (auto simp: trim_def)

lemma decide_and_create_creates:
  assumes "shouldRenderInChannel (config s) c = Inr True"
    and "buildEmbeds (config s) = Inr es"
    and "collaborators_return e"
  shows "fst (decide_and_create e c s) = Inr ()
         \<and> map_of (injectedMessages (snd (decide_and_create e c s))) c =
             Some (MESSAGE_ID_PREFIX @ '':'' @ c)"
proof -
  have g: "truthy (get_prop (config s) ''enabled'')
      \<and> (case get_prop (config s) ''discordId'' of JStr d \<Rightarrow> snowflake_re (trim d) | _ \<Rightarrow> False)
      \<and> (case get_prop (config s) ''messageContent'' of JStr t \<Rightarrow> trim t \<noteq> [] | _ \<Rightarrow> False)"
    using assms(1) by (simp add: shouldRenderInChannel_True_iff)
  obtain d where d: "get_prop (config s) ''discordId'' = JStr d"
    using g by (cases "get_prop (config s) ''discordId''") simp_all
  have t: "truthy (get_prop (config s) ''messageContent'')"
    using g trim_nonempty by (cases "get_prop (config s) ''messageContent''") auto
  obtain r s1 where bi: "build_and_inject e c s = (r, s1)" by (cases "build_and_inject e c s")
  have "r = Inr ()" "injectedMessages s1 = AList.update c (MESSAGE_ID_PREFIX @ '':'' @ c) (injectedMessages s)"
    using build_and_inject_creates [OF d t assms(2,3), of c] bi by simp_all
  then show ?thesis
    using assms(1) bi by (simp add: decide_and_create_def update_conv')
qed

lemma refreshChannel_creates:
  assumes "table_ok s" "c \<noteq> []"
    and "shouldRenderInChannel (config s) c = Inr True"
    and "buildEmbeds (config s) = Inr es"
    and "collaborators_return e"
  shows "fst (refreshChannel e c s) = Inr ()
         \<and> map_of (injectedMessages (snd (refreshChannel e c s))) c =
             Some (MESSAGE_ID_PREFIX @ '':'' @ c)"
proof -
  obtain r s1 where rm: "removeFakeMessage e c s = (r, s1)" by (cases "removeFakeMessage e c s")
  have r: "r = Inr ()" using removeFakeMessage_returns [OF assms(5), of c s] rm by simp
  have cfg: "config s1 = config s" using removeFakeMessage_config [of e c s] rm by simp
  show ?thesis
    using assms(2) rm r decide_and_create_creates [of s1 c es e] assms(3,4,5) cfg
    by (simp add: refreshChannel_def)
qed

lemmas config_eval = mergeWithDefaults_def getDefaultConfig_def normalizeEmbeds_def nco_def
  str_or_empty_def cfg_specific_def cfg_any_def state_with_def init_state_def

lemmas string_eval = trim_def is_space_def snowflake_re_def is_digit_def

lemmas host_eval = env0_def store_getUser_def store_getChannel_def host_call_def log_call_def
  warn_def log_info_def

lemmas engine_eval = refreshChannel_def removeFakeMessage_def dispatchMessageDelete_def
  decide_and_create_def shouldRenderInChannel_def build_and_inject_def buildFakeMessage_def
  message_after_fetch_def fetchUser_def injectFakeMessage_def buildEmbeds_def buildAuthor_def
  decorateContent_def MESSAGE_ID_PREFIX_def LOCAL_BADGE_TEXT_def Let_def

lemma refreshChannel_not_rendered_returns:
  assumes "shouldRenderInChannel (config s) c = Inr False" "collaborators_return e"
  shows "fst (refreshChannel e c s) = Inr ()"
proof (cases "c = []")
  case True
  then show ?thesis by (simp add: refreshChannel_def)
next
  case False
  obtain r s1 where rm: "removeFakeMessage e c s = (r, s1)" by (cases "removeFakeMessage e c s")
  have r: "r = Inr ()" using removeFakeMessage_returns [OF assms(2), of c s] rm by simp
  have cfg: "config s1 = config s" using removeFakeMessage_config [of e c s] rm by simp
  show ?thesis using False rm r cfg assms(1) by (simp add: refreshChannel_def decide_and_create_def)
qed

text \<open>
  Claim C4, amended. With an enabled configuration (the result of \<^verbatim>\<open>mergeWithDefaults\<close>)
  whose discordId and messageContent are valid, whose channelMode is "specific" and whose
  targetChannelId is \<open>t\<close>, and with collaborators that do not throw: \<^verbatim>\<open>refreshChannel(c)\<close>
  leaves every \<open>c\<close> other than \<open>t\<close> Absent, and \<^verbatim>\<open>refreshChannel(t)\<close> leaves \<open>t\<close> Active
  exactly when \<open>t\<close>, trimmed, matches \<^verbatim>\<open>^\d{5,}$\<close>.
\<close>

theorem refreshChannel_specific_scope:
  assumes "table_ok s" "collaborators_return e"
    and "config s = mergeWithDefaults x"
    and "truthy (get_prop (config s) ''enabled'')"
    and "isSnowflake (get_prop (config s) ''discordId'')"
    and "case get_prop (config s) ''messageContent'' of JStr m \<Rightarrow> trim m \<noteq> [] | _ \<Rightarrow> False"
    and "get_prop (config s) ''channelMode'' = JStr ''specific''"
    and "get_prop (config s) ''targetChannelId'' = JStr t"
  shows "(c \<noteq> t \<longrightarrow> map_of (injectedMessages (snd (refreshChannel e c s))) c = None)
       \<and> ((map_of (injectedMessages (snd (refreshChannel e t s))) t \<noteq> None) = snowflake_re (trim t))"
proof -
  have gate: "shouldRenderInChannel (config s) c' = Inr (c' = t \<and> snowflake_re (trim t))" for c'
    using assms(4-8)
    by (cases "get_prop (config s) ''messageContent''")
       (auto simp: shouldRenderInChannel_def)
  have absent: "map_of (injectedMessages (snd (refreshChannel e c' s))) c' = None"
    if "\<not> (c' = t \<and> snowflake_re (trim t))" for c'
  proof -
    have f: "shouldRenderInChannel (config s) c' = Inr False" using gate [of c'] that by simp
    then have ng: "shouldRenderInChannel (config s) c' \<noteq> Inr True" by simp
    have "fst (refreshChannel e c' s) = Inr ()"
      using refreshChannel_not_rendered_returns [OF f assms(2)] .
    then have "refreshChannel e c' s = (Inr (), snd (refreshChannel e c' s))"
      by (metis prod.collapse)
    then show ?thesis
      using refreshChannel_not_rendered [OF assms(1) _ ng] by blast
  qed
  have present: "map_of (injectedMessages (snd (refreshChannel e t s))) t \<noteq> None"
    if sf: "snowflake_re (trim t)"
  proof -
    have "trim t \<noteq> []" using sf by (auto simp: snowflake_re_def)
    then have ne: "t \<noteq> []" by (rule trim_nonempty)
    obtain es where es: "buildEmbeds (config s) = Inr es"
      using buildEmbeds_mergeWithDefaults [of x] assms(3) by auto
    have "shouldRenderInChannel (config s) t = Inr True" using gate [of t] sf by simp
    then show ?thesis
      using refreshChannel_creates [OF assms(1) ne _ es assms(2)] by simp
  qed
  show ?thesis
  proof (cases "snowflake_re (trim t)")
    case True
    then show ?thesis using absent [of c] present by simp
  next
    case False
    then show ?thesis using absent [of c] absent [of t] by simp
  qed
qed

text \<open>
  Claim C4 as stated fails: with targetChannelId "111", \<^verbatim>\<open>refreshChannel("111")\<close> creates
  no item, since "111" has fewer than five digits.
\<close>

theorem refreshChannel_specific_111_counterexample:
  "map_of (injectedMessages (snd (refreshChannel env0 ''111'' (state_with (cfg_specific ''111''))))) ''111'' = None"
  by (simp add: engine_eval config_eval string_eval host_eval)

lemma collaborators_return_env0: "collaborators_return env0"
  by (simp add: collaborators_return_def env0_def store_getUser_def store_getChannel_def)

lemma table_ok_state_with: "table_ok (state_with cfg)"
  by (simp add: table_ok_def state_with_def init_state_def)

text \<open>
  Claim C4, amended, at concrete inputs: target 11111 with channels 22222 and 11111, and
  target 111 with channel 111.
\<close>

theorem refreshChannel_specific_scope_witness:
  "map_of (injectedMessages (snd (refreshChannel env0 ''22222'' (state_with (cfg_specific ''11111''))))) ''22222'' = None
   \<and> map_of (injectedMessages (snd (refreshChannel env0 ''11111'' (state_with (cfg_specific ''11111''))))) ''11111'' \<noteq> None
   \<and> map_of (injectedMessages (snd (refreshChannel env0 ''111'' (state_with (cfg_specific ''111''))))) ''111'' = None"
proof -
  have a: "config (state_with (cfg_specific t)) = mergeWithDefaults (JObj
     [(''discordId'', JStr ''123456789012345''), (''messageContent'', JStr ''hello''),
      (''channelMode'', JStr ''specific''), (''targetChannelId'', JStr t)])" for t
    by (simp add: state_with_def cfg_specific_def)
  have b: "truthy (get_prop (config (state_with (cfg_specific t))) ''enabled'')" for t
    by (simp add: config_eval)
  have c: "isSnowflake (get_prop (config (state_with (cfg_specific t))) ''discordId'')" for t
    by (simp add: config_eval string_eval)
  have d: "case get_prop (config (state_with (cfg_specific t))) ''messageContent'' of
             JStr m \<Rightarrow> trim m \<noteq> [] | _ \<Rightarrow> False" for t
    by (simp add: config_eval string_eval)
  have e: "get_prop (config (state_with (cfg_specific t))) ''channelMode'' = JStr ''specific''" for t
    by (simp add: config_eval)
  have f: "get_prop (config (state_with (cfg_specific t))) ''targetChannelId'' = JStr t" for t
    by (simp add: config_eval)
  note th = refreshChannel_specific_scope [OF table_ok_state_with collaborators_return_env0 a b c d e f]
  have "snowflake_re (trim ''11111'')" "\<not> snowflake_re (trim ''111'')"
    by (simp_all add: string_eval)
  then show ?thesis
    using th [of "''22222''" "''11111''"] th [of "''111''" "''111''"] by simp
qed

text \<open>
  Claim C5, amended. When the retraction has returned and the rendering decision is positive, an
  exception that propagates out of \<^verbatim>\<open>buildFakeMessage\<close> or out of \<^verbatim>\<open>injectFakeMessage\<close> is
  caught by \<^verbatim>\<open>refreshChannel(c)\<close>: the method returns normally, \<open>c\<close> is Absent, and the
  last thing it does is log the warning. An asynchronous identity fetch that rejects is
  not such an exception: \<^verbatim>\<open>fetchUser\<close> raises only when the synchronous store lookup
  does.
\<close>

theorem refreshChannel_catches_build_errors:
  assumes "table_ok s" "c \<noteq> []"
    and "removeFakeMessage e c s = (Inr (), s1)"
    and "shouldRenderInChannel (config s) c = Inr True"
    and "fst (buildFakeMessage e c s1) = Inl err
         \<or> (\<exists>m. fst (buildFakeMessage e c s1) = Inr (Some m)
               \<and> fst (injectFakeMessage e m (snd (buildFakeMessage e c s1))) = Inl err)"
  shows "fst (refreshChannel e c s) = Inr ()
     \<and> map_of (injectedMessages (snd (refreshChannel e c s))) c = None
     \<and> (\<exists>tr. calls (snd (refreshChannel e c s)) = calls s1 @ tr @ [Warn ''Failed to create fake message''])
     \<and> (\<forall>u s0 w0. store_getUser e (trimmed_id u) = Inr w0 \<longrightarrow> (\<exists>v. fst (fetchUser e u s0) = Inr v))"
proof -
  have cfg: "config s1 = config s" using removeFakeMessage_config [of e c s] assms(3) by simp
  have abs: "map_of (injectedMessages s1) c = None"
    using removeFakeMessage_absent [OF assms(1,3)] .
  obtain r2 s2 where bi: "build_and_inject e c s1 = (r2, s2)" by (cases "build_and_inject e c s1")
  have raised: "\<exists>err'. r2 = Inl err'"
    using assms(5) bi by (cases rule: build_and_inject_cases [of e c s1]) fastforce+
  then obtain err' where r2: "r2 = Inl err'" by blast
  have tbl: "injectedMessages s2 = injectedMessages s1"
    using build_and_inject_raised_table [of e c s1 err'] bi r2 by simp
  obtain tr where tr: "calls s2 = calls s1 @ tr"
    using build_and_inject_step [of s1 e c] bi by (auto simp: engine_step_def)
  have rc: "refreshChannel e c s = (Inr (), warn ''Failed to create fake message'' s2)"
    using assms(2,3,4) cfg bi r2 by (simp add: refreshChannel_def decide_and_create_def)
  have "\<forall>u s0 w0. store_getUser e (trimmed_id u) = Inr w0 \<longrightarrow> (\<exists>v. fst (fetchUser e u s0) = Inr v)"
    using fetchUser_total by blast
  then show ?thesis
    using rc tbl abs tr by (simp add: warn_def log_call_def)
qed

text \<open>
  Claim C5 as stated fails: the store's asynchronous \<^verbatim>\<open>fetchUser\<close> rejects, yet
  \<^verbatim>\<open>refreshChannel\<close> records an item for the channel (built with the placeholder
  identity).
\<close>

theorem refreshChannel_fetch_rejects_counterexample:
  "store_fetchUser env_fetch_rejects = Some (\<lambda>i. Inl (HostError ''network''))
   \<and> fst (refreshChannel env_fetch_rejects ''99999'' (state_with cfg_any)) = Inr ()
   \<and> map_of (injectedMessages (snd (refreshChannel env_fetch_rejects ''99999'' (state_with cfg_any)))) ''99999''
       = Some ''fake-message-composer:99999''"
  by (simp add: env_fetch_rejects_def engine_eval config_eval string_eval host_eval)

text \<open>
  Claim C5, amended, at a concrete input: the synchronous \<^verbatim>\<open>getUser\<close> throws.
\<close>

theorem refreshChannel_catches_build_errors_witness:
  "fst (refreshChannel env_lookup_throws ''99999'' (state_with cfg_any)) = Inr ()
   \<and> map_of (injectedMessages (snd (refreshChannel env_lookup_throws ''99999'' (state_with cfg_any)))) ''99999'' = None"
proof -
  have a: "removeFakeMessage env_lookup_throws ''99999'' (state_with cfg_any) = (Inr (), state_with cfg_any)"
    by (simp add: removeFakeMessage_def config_eval)
  have b: "shouldRenderInChannel (config (state_with cfg_any)) ''99999'' = Inr True"
    by (simp add: shouldRenderInChannel_def config_eval string_eval)
  have c: "fst (buildFakeMessage env_lookup_throws ''99999'' (state_with cfg_any)) = Inl (HostError ''store'')"
    by (simp add: env_lookup_throws_def buildFakeMessage_def fetchUser_def Let_def config_eval
        string_eval host_eval)
  show ?thesis
    using refreshChannel_catches_build_errors [OF table_ok_state_with _ a b, of "HostError ''store''"] c
    by simp
qed

text \<open>
  Claim C6 as stated fails: for the raw id " 12345 " and a store that knows nobody the
  placeholder carries the trimmed id, and the state is returned unchanged: nothing is
  cached.
\<close>

theorem fetchUser_placeholder_counterexample:
  "fetchUser env0 (Some '' 12345 '') init_state = (Inr (JObj [(''id'', JStr ''12345'')]), init_state)
   \<and> map_of (userCache init_state) ''12345'' = None"
  by (simp add: fetchUser_def Let_def config_eval string_eval host_eval)

text \<open>
  Claim C6, amended, at concrete inputs: an unresolved id, and an id the store resolves.
\<close>

theorem fetchUser_results_witness:
  "fst (fetchUser env0 (Some '' 12345 '') init_state) = Inr (placeholder_user ''12345'')
   \<and> userCache (snd (fetchUser env0 (Some '' 12345 '') init_state)) = []
   \<and> userCache (snd (fetchUser env_resolving (Some ''12345'') init_state)) =
        [(''12345'', JObj [(''id'', JStr ''12345''), (''username'', JStr ''alice'')])]"
proof -
  have t: "trimmed_id (Some '' 12345 '') = ''12345''" "trimmed_id (Some ''12345'') = ''12345''"
    by (simp_all add: trimmed_id_def string_eval)
  have m: "map_of (userCache init_state) ''12345'' = None" "userCache init_state = []"
    by (simp_all add: init_state_def)
  have g0: "store_getUser env0 ''12345'' = Inr JUndefined" "store_fetchUser env0 = None"
    by (simp_all add: host_eval)
  have g1: "store_getUser env_resolving ''12345'' =
        Inr (JObj [(''id'', JStr ''12345''), (''username'', JStr ''alice'')])"
    by (simp add: env_resolving_def host_eval)
  show ?thesis
    using fetchUser_results [of "Some '' 12345 ''" env0 init_state]
      fetchUser_results [of "Some ''12345''" env_resolving init_state]
    by (simp add: t m g0 g1)
qed

lemma table_ok_state_one: "table_ok state_one"
  by (simp add: table_ok_def state_one_def init_state_def)

text \<open>
  Claim C1 at a concrete input: channel 99999 holds an item, the configuration is the
  default one.
\<close>

theorem refreshChannel_retract_then_decide_witness:
  "calls (snd (removeFakeMessage env0 ''99999'' state_one)) =
      [DeleteMessage ''99999'' ''fake-message-composer:99999'']
   \<and> injectedMessages (snd (removeFakeMessage env0 ''99999'' state_one)) = []
   \<and> length (filter (\<lambda>p. fst p = ''99999'') (injectedMessages (snd (refreshChannel env0 ''99999'' state_one)))) \<le> 1"
proof -
  have a: "map_of (injectedMessages state_one) ''99999'' = Some ''fake-message-composer:99999''"
    "calls state_one = []" "injectedMessages state_one = [(''99999'', ''fake-message-composer:99999'')]"
    by (simp_all add: state_one_def init_state_def)
  have b: "deleteMessage env0 = Some (\<lambda>c m. None)" by (simp add: env0_def)
  have c: "fst (removeFakeMessage env0 ''99999'' state_one) = Inr ()"
    by (simp add: removeFakeMessage_def dispatchMessageDelete_def a b host_call_def)
  show ?thesis
    using refreshChannel_retract_then_decide [OF table_ok_state_one, of "''99999''" env0]
    by (simp add: a b c)
qed

text \<open>
  Claim C3 at a concrete input: a disabled but otherwise valid configuration, channel
  99999 holding an item.
\<close>

theorem refreshChannel_gate_witness:
  "\<not> truthy (get_prop (config (state_one\<lparr>config := cfg_disabled\<rparr>)) ''enabled'')
   \<and> map_of (injectedMessages (snd (refreshChannel env0 ''11111'' (state_one\<lparr>config := cfg_disabled\<rparr>)))) ''11111'' = None
   \<and> map_of (injectedMessages (snd (refreshChannel env0 ''99999'' (state_one\<lparr>config := cfg_disabled\<rparr>)))) ''99999'' = None"
proof -
  have ok: "table_ok (state_one\<lparr>config := cfg_disabled\<rparr>)"
    by (simp add: table_ok_def state_one_def init_state_def)
  have en: "\<not> truthy (get_prop (config (state_one\<lparr>config := cfg_disabled\<rparr>)) ''enabled'')"
    by (simp add: cfg_disabled_def config_eval)
  have r: "fst (refreshChannel env0 c (state_one\<lparr>config := cfg_disabled\<rparr>)) = Inr ()" for c
    using refreshChannel_not_rendered_returns [OF _ collaborators_return_env0, of "state_one\<lparr>config := cfg_disabled\<rparr>" c]
    by (simp add: shouldRenderInChannel_def cfg_disabled_def config_eval)
  have p: "refreshChannel env0 c (state_one\<lparr>config := cfg_disabled\<rparr>) =
        (Inr (), snd (refreshChannel env0 c (state_one\<lparr>config := cfg_disabled\<rparr>)))" for c
    using r [of c] by (metis prod.collapse)
  show ?thesis
    using refreshChannel_gate [OF ok p [of "''11111''"]] refreshChannel_gate [OF ok p [of "''99999''"]] en
    by simp
qed

subsection \<open>Reconciliation after a configuration change, and stop\<close>

lemma removals_simps [simp]:
  "removals [] = []"
  "removals (xs @ ys) = removals xs @ removals ys"
  "removals (c # cs) = (case removal_of c of None \<Rightarrow> removals cs | Some p \<Rightarrow> p # removals cs)"
  by (simp_all add: removals_def List.map_filter_def split: option.splits)

lemma log_call_calls: "calls (log_call c s) = calls s @ [c]"
  by (simp add: log_call_def)

lemma fetchUser_removals: "removals (calls (snd (fetchUser e u s))) = removals (calls s)"
  by (auto simp: fetchUser_def Let_def warn_def log_call_def split: option.splits sum.splits)

lemma buildFakeMessage_removals:
  "removals (calls (snd (buildFakeMessage e c s))) = removals (calls s)"
  by (simp add: buildFakeMessage_snd fetchUser_removals split: jsval.splits)

lemma injectFakeMessage_removals:
  "removals (calls (snd (injectFakeMessage e m s))) = removals (calls s)"
  by (simp add: injectFakeMessage_def host_call_snd log_call_def split: option.splits)

lemma build_and_inject_removals:
  "removals (calls (snd (build_and_inject e c s))) = removals (calls s)"
  by (cases rule: build_and_inject_cases [of e c s])
     (simp_all add: buildFakeMessage_removals injectFakeMessage_removals)

lemma decide_and_create_removals:
  "removals (calls (snd (decide_and_create e c s))) = removals (calls s)"
proof (cases "shouldRenderInChannel (config s) c")
  case (Inl err)
  then show ?thesis by (simp add: decide_and_create_def)
next
  case (Inr b)
  obtain r s1 where bi: "build_and_inject e c s = (r, s1)" by (cases "build_and_inject e c s")
  have "removals (calls s1) = removals (calls s)"
    using build_and_inject_removals [of e c s] bi by simp
  then show ?thesis
    using Inr bi by (cases b; cases r) (simp_all add: decide_and_create_def warn_def log_call_def)
qed

lemma removeFakeMessage_empty_table:
  "injectedMessages s = [] \<Longrightarrow> removeFakeMessage e c s = (Inr (), s)"
  by (simp add: removeFakeMessage_def)

lemma refreshChannel_empty_table:
  assumes "injectedMessages s = []"
  shows "removals (calls (snd (refreshChannel e c s))) = removals (calls s)
         \<and> (\<forall>d. d \<noteq> c \<longrightarrow> map_of (injectedMessages (snd (refreshChannel e c s))) d = None)"
proof (cases "c = []")
  case True
  then show ?thesis using assms by (simp add: refreshChannel_def)
next
  case False
  have t: "injectedMessages (snd (decide_and_create e c s)) = []
           \<or> injectedMessages (snd (decide_and_create e c s)) = [(c, MESSAGE_ID_PREFIX @ '':'' @ c)]"
    using decide_and_create_table [of e c s] assms by auto
  then have "\<forall>d. d \<noteq> c \<longrightarrow> map_of (injectedMessages (snd (decide_and_create e c s))) d = None"
    by auto
  then show ?thesis
    using False removeFakeMessage_empty_table [OF assms, of e c]
    by (simp add: refreshChannel_def decide_and_create_removals)
qed

lemma refreshForCurrentChannel_empty_table:
  assumes "injectedMessages s = []"
  shows "removals (calls (refreshForCurrentChannel e force s)) = removals (calls s)
         \<and> (\<forall>d. Some d \<noteq> getCurrentChannelId e \<longrightarrow>
               map_of (injectedMessages (refreshForCurrentChannel e force s)) d = None)"
proof (cases "getCurrentChannelId e")
  case None
  then show ?thesis using assms by (simp add: refreshForCurrentChannel_def)
next
  case (Some current)
  show ?thesis
    using Some assms refreshChannel_empty_table [OF assms, of e current]
    by (auto simp: refreshForCurrentChannel_def)
qed

lemma refreshForCurrentChannel_step: "engine_step s (refreshForCurrentChannel e force s)"
  by (simp add: refreshForCurrentChannel_def engine_step_refl refreshChannel_step split: option.splits)

lemma delete_each_table: "injectedMessages (snd (delete_each e xs s)) = injectedMessages s"
proof (induction xs arbitrary: s)
  case Nil
  show ?case by simp
next
  case (Cons x xs)
  obtain c m where x: "x = (c, m)" by (cases x)
  obtain r s1 where d: "dispatchMessageDelete e c m s = (r, s1)" by (cases "dispatchMessageDelete e c m s")
  have "injectedMessages s1 = injectedMessages s"
    using dispatchMessageDelete_table(1) [of e c m s] d by simp
  then show ?case using x d Cons.IH [of s1] by (cases r) simp_all
qed

lemma delete_each_step: "engine_step s (snd (delete_each e xs s))"
proof (induction xs arbitrary: s)
  case Nil
  show ?case by (simp add: engine_step_refl)
next
  case (Cons x xs)
  obtain c m where x: "x = (c, m)" by (cases x)
  obtain r s1 where d: "dispatchMessageDelete e c m s = (r, s1)" by (cases "dispatchMessageDelete e c m s")
  have st: "engine_step s s1" using dispatchMessageDelete_step [of s e c m] d by simp
  show ?case
    using x d st engine_step_trans [OF st Cons.IH [of s1]] by (cases r) simp_all
qed

lemma delete_each_removals:
  assumes "deleteMessage e \<noteq> None \<or> dispatch e \<noteq> None"
    and "fst (delete_each e xs s) = Inr ()"
  shows "removals (calls (snd (delete_each e xs s))) = removals (calls s) @ xs"
  using assms(2)
proof (induction xs arbitrary: s)
  case Nil
  show ?case by simp
next
  case (Cons x xs)
  obtain c m where x: "x = (c, m)" by (cases x)
  obtain r s1 where d: "dispatchMessageDelete e c m s = (r, s1)" by (cases "dispatchMessageDelete e c m s")
  have c1: "removals (calls s1) = removals (calls s) @ [(c, m)]"
    using dispatchMessageDelete_calls [of e c m s] d assms(1)
    by (auto split: option.splits)
  show ?case
  proof (cases r)
    case (Inl err)
    then show ?thesis using Cons.prems x d by simp
  next
    case (Inr u)
    then have "fst (delete_each e xs s1) = Inr ()" using Cons.prems x d by simp
    then show ?thesis using Cons.IH [of s1] x d Inr c1 by simp
  qed
qed

lemma clearInjectedMessages_step: "engine_step s (snd (clearInjectedMessages e s))"
proof -
  obtain r s1 where d: "delete_each e (injectedMessages s) s = (r, s1)"
    by (cases "delete_each e (injectedMessages s) s")
  have "engine_step s s1" using delete_each_step [of s e "injectedMessages s"] d by simp
  then show ?thesis using d by (cases r) (simp_all add: clearInjectedMessages_def engine_step_table)
qed

lemma clearInjectedMessages_returns:
  assumes "fst (clearInjectedMessages e s) = Inr ()"
  shows "injectedMessages (snd (clearInjectedMessages e s)) = []
         \<and> fst (delete_each e (injectedMessages s) s) = Inr ()
         \<and> calls (snd (clearInjectedMessages e s)) = calls (snd (delete_each e (injectedMessages s) s))"
proof -
  obtain r s1 where d: "delete_each e (injectedMessages s) s = (r, s1)"
    by (cases "delete_each e (injectedMessages s) s")
  show ?thesis using assms d by (cases r) (simp_all add: clearInjectedMessages_def)
qed

lemma clearInjectedMessages_raises:
  assumes "fst (clearInjectedMessages e s) = Inl err"
  shows "injectedMessages (snd (clearInjectedMessages e s)) = injectedMessages s"
proof -
  obtain r s1 where d: "delete_each e (injectedMessages s) s = (r, s1)"
    by (cases "delete_each e (injectedMessages s) s")
  have "injectedMessages s1 = injectedMessages s"
    using delete_each_table [of e "injectedMessages s" s] d by simp
  then show ?thesis using assms d by (cases r) (simp_all add: clearInjectedMessages_def)
qed

lemma reapplyFakeMessages_step: "engine_step s (snd (reapplyFakeMessages e s))"
proof (cases "started s")
  case False
  then show ?thesis by (simp add: reapplyFakeMessages_def engine_step_refl)
next
  case True
  obtain r s1 where c: "clearInjectedMessages e s = (r, s1)" by (cases "clearInjectedMessages e s")
  have st: "engine_step s s1" using clearInjectedMessages_step [of s e] c by simp
  show ?thesis
    using True c st engine_step_trans [OF st refreshForCurrentChannel_step [of s1 e True]]
    by (cases r) (simp_all add: reapplyFakeMessages_def)
qed

lemma injections_simps [simp]:
  "injections [] = []"
  "injections (xs @ ys) = injections xs @ injections ys"
  "injections (c # cs) = (case injection_of c of None \<Rightarrow> injections cs | Some p \<Rightarrow> p # injections cs)"
  by (simp_all add: injections_def List.map_filter_def split: option.splits)

lemma fetchUser_injections: "injections (calls (snd (fetchUser e u s))) = injections (calls s)"
  by (auto simp: fetchUser_def Let_def warn_def log_call_def split: option.splits sum.splits)

lemma buildFakeMessage_injections:
  "injections (calls (snd (buildFakeMessage e c s))) = injections (calls s)"
  by (simp add: buildFakeMessage_snd fetchUser_injections split: jsval.splits)

lemma injectFakeMessage_injections:
  "injections (calls (snd (injectFakeMessage e m s))) =
     injections (calls s) @
       (if receiveMessage e \<noteq> None \<or> dispatch e \<noteq> None then [(m_channel_id m, m_id m)] else [])"
  by (auto simp: injectFakeMessage_def host_call_snd log_call_def split: option.splits)

lemma build_and_inject_injections:
  "injections (calls (snd (build_and_inject e c s))) = injections (calls s)
   \<or> injections (calls (snd (build_and_inject e c s))) =
        injections (calls s) @ [(c, MESSAGE_ID_PREFIX @ '':'' @ c)]"
proof (cases rule: build_and_inject_cases [of e c s])
  case (build_raised err)
  then show ?thesis by (simp add: buildFakeMessage_injections)
next
  case no_message
  then show ?thesis by (simp add: buildFakeMessage_injections)
next
  case (inject_raised m err)
  have "buildFakeMessage e c s = (Inr (Some m), snd (buildFakeMessage e c s))"
    using inject_raised(1) by (metis prod.collapse)
  then have "m_id m = MESSAGE_ID_PREFIX @ '':'' @ c \<and> m_channel_id m = c"
    by (rule buildFakeMessage_id)
  then show ?thesis
    using inject_raised by (simp add: injectFakeMessage_injections buildFakeMessage_injections)
next
  case (created m)
  have "buildFakeMessage e c s = (Inr (Some m), snd (buildFakeMessage e c s))"
    using created(1) by (metis prod.collapse)
  then have "m_id m = MESSAGE_ID_PREFIX @ '':'' @ c \<and> m_channel_id m = c"
    by (rule buildFakeMessage_id)
  then show ?thesis
    using created by (simp add: injectFakeMessage_injections buildFakeMessage_injections)
qed

lemma build_and_inject_creates_injection:
  assumes "get_prop (config s) ''discordId'' = JStr d"
    and "truthy (get_prop (config s) ''messageContent'')"
    and "buildEmbeds (config s) = Inr es"
    and "collaborators_return e"
    and "receiveMessage e \<noteq> None \<or> dispatch e \<noteq> None"
  shows "injections (calls (snd (build_and_inject e c s))) =
           injections (calls s) @ [(c, MESSAGE_ID_PREFIX @ '':'' @ c)]"
proof -
  obtain m where m: "fst (buildFakeMessage e c s) = Inr (Some m)"
    using buildFakeMessage_returns [OF assms(1-4)] by blast
  have "buildFakeMessage e c s = (Inr (Some m), snd (buildFakeMessage e c s))"
    using m by (metis prod.collapse)
  then have id: "m_id m = MESSAGE_ID_PREFIX @ '':'' @ c \<and> m_channel_id m = c"
    by (rule buildFakeMessage_id)
  show ?thesis
    using m id assms(5) injectFakeMessage_returns [OF assms(4)]
    by (cases rule: build_and_inject_cases [of e c s])
       (simp_all add: injectFakeMessage_injections buildFakeMessage_injections)
qed

lemma decide_and_create_injections:
  "injections (calls (snd (decide_and_create e c s))) = injections (calls s)
   \<or> (shouldRenderInChannel (config s) c = Inr True
      \<and> injections (calls (snd (decide_and_create e c s))) =
           injections (calls s) @ [(c, MESSAGE_ID_PREFIX @ '':'' @ c)])"
proof (cases "shouldRenderInChannel (config s) c")
  case (Inl err)
  then show ?thesis by (simp add: decide_and_create_def)
next
  case (Inr b)
  obtain r s1 where bi: "build_and_inject e c s = (r, s1)" by (cases "build_and_inject e c s")
  have "injections (calls s1) = injections (calls s)
        \<or> injections (calls s1) = injections (calls s) @ [(c, MESSAGE_ID_PREFIX @ '':'' @ c)]"
    using build_and_inject_injections [of e c s] bi by simp
  then show ?thesis
    using Inr bi by (cases b; cases r) (auto simp: decide_and_create_def warn_def log_call_def)
qed

lemma decide_and_create_creates_injection:
  assumes "shouldRenderInChannel (config s) c = Inr True"
    and "buildEmbeds (config s) = Inr es"
    and "collaborators_return e"
    and "receiveMessage e \<noteq> None \<or> dispatch e \<noteq> None"
  shows "injections (calls (snd (decide_and_create e c s))) =
           injections (calls s) @ [(c, MESSAGE_ID_PREFIX @ '':'' @ c)]"
proof -
  have g: "truthy (get_prop (config s) ''enabled'')
      \<and> (case get_prop (config s) ''discordId'' of JStr d \<Rightarrow> snowflake_re (trim d) | _ \<Rightarrow> False)
      \<and> (case get_prop (config s) ''messageContent'' of JStr t \<Rightarrow> trim t \<noteq> [] | _ \<Rightarrow> False)"
    using assms(1) by (simp add: shouldRenderInChannel_True_iff)
  obtain d where d: "get_prop (config s) ''discordId'' = JStr d"
    using g by (cases "get_prop (config s) ''discordId''") simp_all
  have t: "truthy (get_prop (config s) ''messageContent'')"
    using g trim_nonempty by (cases "get_prop (config s) ''messageContent''") auto
  obtain r s1 where bi: "build_and_inject e c s = (r, s1)" by (cases "build_and_inject e c s")
  have "injections (calls s1) = injections (calls s) @ [(c, MESSAGE_ID_PREFIX @ '':'' @ c)]"
    using build_and_inject_creates_injection [OF d t assms(2,3,4), of c] bi by simp
  then show ?thesis
    using assms(1) bi by (cases r) (simp_all add: decide_and_create_def warn_def log_call_def)
qed

lemma dispatchMessageDelete_injections:
  "injections (calls (snd (dispatchMessageDelete e c m s))) = injections (calls s)"
  by (simp add: dispatchMessageDelete_calls split: option.splits)

lemma delete_each_injections:
  "injections (calls (snd (delete_each e xs s))) = injections (calls s)"
proof (induction xs arbitrary: s)
  case Nil
  show ?case by simp
next
  case (Cons x xs)
  obtain c m where x: "x = (c, m)" by (cases x)
  obtain r s1 where d: "dispatchMessageDelete e c m s = (r, s1)" by (cases "dispatchMessageDelete e c m s")
  have "injections (calls s1) = injections (calls s)"
    using dispatchMessageDelete_injections [of e c m s] d by simp
  then show ?case using x d Cons.IH [of s1] by (cases r) simp_all
qed

text \<open>The selected channel, refreshed on an empty table.\<close>

lemma refreshForCurrentChannel_on_empty:
  assumes "injectedMessages s = []"
  shows "(injectedMessages (refreshForCurrentChannel e True s) = []
          \<and> injections (calls (refreshForCurrentChannel e True s)) = injections (calls s))
       \<or> (\<exists>c. getCurrentChannelId e = Some c \<and> c \<noteq> []
              \<and> shouldRenderInChannel (config s) c = Inr True
              \<and> (injectedMessages (refreshForCurrentChannel e True s) = []
                 \<or> injectedMessages (refreshForCurrentChannel e True s) =
                      [(c, MESSAGE_ID_PREFIX @ '':'' @ c)])
              \<and> (injections (calls (refreshForCurrentChannel e True s)) = injections (calls s)
                 \<or> injections (calls (refreshForCurrentChannel e True s)) =
                      injections (calls s) @ [(c, MESSAGE_ID_PREFIX @ '':'' @ c)]))"
proof (cases "getCurrentChannelId e")
  case None
  then show ?thesis using assms by (simp add: refreshForCurrentChannel_def)
next
  case (Some c)
  show ?thesis
  proof (cases "c = []")
    case True
    then show ?thesis using Some assms by (simp add: refreshForCurrentChannel_def)
  next
    case False
    have r: "refreshForCurrentChannel e True s = snd (decide_and_create e c s)"
      using Some False removeFakeMessage_empty_table [OF assms, of e c]
      by (simp add: refreshForCurrentChannel_def refreshChannel_def)
    show ?thesis
      using Some False assms decide_and_create_table [of e c s]
        decide_and_create_injections [of e c s]
      unfolding r by auto
  qed
qed

lemma refreshForCurrentChannel_creates:
  assumes "injectedMessages s = []"
    and "getCurrentChannelId e = Some c" "c \<noteq> []"
    and "shouldRenderInChannel (config s) c = Inr True"
    and "buildEmbeds (config s) = Inr es"
    and "collaborators_return e"
  shows "injectedMessages (refreshForCurrentChannel e True s) = [(c, MESSAGE_ID_PREFIX @ '':'' @ c)]
       \<and> (receiveMessage e \<noteq> None \<or> dispatch e \<noteq> None \<longrightarrow>
            injections (calls (refreshForCurrentChannel e True s)) =
              injections (calls s) @ [(c, MESSAGE_ID_PREFIX @ '':'' @ c)])"
proof -
  have r: "refreshForCurrentChannel e True s = snd (decide_and_create e c s)"
    using assms(1-3) removeFakeMessage_empty_table [OF assms(1), of e c]
    by (simp add: refreshForCurrentChannel_def refreshChannel_def)
  have "map_of (injectedMessages (snd (decide_and_create e c s))) c =
          Some (MESSAGE_ID_PREFIX @ '':'' @ c)"
    using decide_and_create_creates [OF assms(4,5,6)] by simp
  then have t: "injectedMessages (snd (decide_and_create e c s)) = [(c, MESSAGE_ID_PREFIX @ '':'' @ c)]"
    using decide_and_create_table [of e c s] assms(1) by auto
  show ?thesis
    unfolding r using t decide_and_create_creates_injection [OF assms(4,5,6)] by simp
qed

lemma refreshForCurrentChannel_removals:
  assumes "injectedMessages s = []"
  shows "removals (calls (refreshForCurrentChannel e force s)) = removals (calls s)"
  using refreshForCurrentChannel_empty_table [OF assms] by simp

lemma clearInjectedMessages_config: "config (snd (clearInjectedMessages e s)) = config s"
  using clearInjectedMessages_step [of s e] by (simp add: engine_step_def)

lemma engine_step_trace: "engine_step s s' \<Longrightarrow> \<exists>tr. calls s' = calls s @ tr"
  by (auto simp: engine_step_def)

text \<open>
  Claim C2, amended. \<^verbatim>\<open>reapplyFakeMessages\<close> does nothing unless the plugin is started.
  When it is started and no removal throws, so that the method returns:
  every channel other than the currently selected one is Absent afterwards; (a removal
  collaborator being present) the removal collaborator has been called once for every
  entry the table held, in table order, and for nothing else; the selected channel \<open>c\<close> is
  then refreshed: when \<^verbatim>\<open>shouldRenderInChannel(c)\<close> holds, no collaborator throws and the
  configuration is a result of \<^verbatim>\<open>mergeWithDefaults\<close>, the table afterwards is exactly the
  entry of \<open>c\<close> and (an injection collaborator being present) exactly one injection call
  has been made, for \<open>c\<close>; when no channel is selected or the selected one is not to be
  rendered, the table is empty and no injection call has been made; in every case at most
  one injection call is made, for the selected channel, and every removal call precedes it.
\<close>

theorem reapplyFakeMessages_retracts_all:
  "(\<not> started s \<longrightarrow> reapplyFakeMessages e s = (Inr (), s))
   \<and> (started s \<and> fst (reapplyFakeMessages e s) = Inr () \<longrightarrow>
        (\<forall>d. Some d \<noteq> getCurrentChannelId e \<longrightarrow>
              map_of (injectedMessages (snd (reapplyFakeMessages e s))) d = None)
      \<and> (deleteMessage e \<noteq> None \<or> dispatch e \<noteq> None \<longrightarrow>
            removals (calls (snd (reapplyFakeMessages e s))) = removals (calls s) @ injectedMessages s)
      \<and> (\<forall>c. getCurrentChannelId e = Some c \<and> c \<noteq> []
               \<and> shouldRenderInChannel (config s) c = Inr True
               \<and> collaborators_return e \<and> config s = mergeWithDefaults x \<longrightarrow>
             injectedMessages (snd (reapplyFakeMessages e s)) = [(c, MESSAGE_ID_PREFIX @ '':'' @ c)]
             \<and> (receiveMessage e \<noteq> None \<or> dispatch e \<noteq> None \<longrightarrow>
                  injections (calls (snd (reapplyFakeMessages e s))) =
                    injections (calls s) @ [(c, MESSAGE_ID_PREFIX @ '':'' @ c)]))
      \<and> ((\<forall>c. getCurrentChannelId e = Some c \<and> c \<noteq> [] \<longrightarrow>
                shouldRenderInChannel (config s) c \<noteq> Inr True) \<longrightarrow>
             injectedMessages (snd (reapplyFakeMessages e s)) = []
             \<and> injections (calls (snd (reapplyFakeMessages e s))) = injections (calls s))
      \<and> (injections (calls (snd (reapplyFakeMessages e s))) = injections (calls s)
         \<or> (\<exists>c. getCurrentChannelId e = Some c
                \<and> injections (calls (snd (reapplyFakeMessages e s))) =
                     injections (calls s) @ [(c, MESSAGE_ID_PREFIX @ '':'' @ c)]))
      \<and> (\<exists>tr1 tr2. calls (snd (reapplyFakeMessages e s)) = calls s @ tr1 @ tr2
              \<and> injections tr1 = [] \<and> removals tr2 = []))"
proof (cases "started s")
  case False
  then show ?thesis by (simp add: reapplyFakeMessages_def)
next
  case True
  obtain r s1 where c: "clearInjectedMessages e s = (r, s1)" by (cases "clearInjectedMessages e s")
  show ?thesis
  proof (cases r)
    case (Inl err)
    then show ?thesis using True c by (simp add: reapplyFakeMessages_def)
  next
    case (Inr u)
    then have ok: "fst (clearInjectedMessages e s) = Inr ()" using c by simp
    have e1: "injectedMessages s1 = []"
      and d1: "fst (delete_each e (injectedMessages s) s) = Inr ()"
      and c1: "calls s1 = calls (snd (delete_each e (injectedMessages s) s))"
      using clearInjectedMessages_returns [OF ok] c by simp_all
    have cfg: "config s1 = config s" using clearInjectedMessages_config [of e s] c by simp
    have rm: "deleteMessage e \<noteq> None \<or> dispatch e \<noteq> None \<Longrightarrow>
              removals (calls s1) = removals (calls s) @ injectedMessages s"
      using delete_each_removals [OF _ d1] c1 by simp
    have in1: "injections (calls s1) = injections (calls s)"
      using delete_each_injections [of e "injectedMessages s" s] c1 by simp
    define s' where "s' = refreshForCurrentChannel e True s1"
    have res: "reapplyFakeMessages e s = (Inr (), s')"
      using True c Inr by (simp add: reapplyFakeMessages_def s'_def)
    have one: "\<forall>d. Some d \<noteq> getCurrentChannelId e \<longrightarrow> map_of (injectedMessages s') d = None"
      using refreshForCurrentChannel_empty_table [OF e1, of e True] by (simp add: s'_def)
    have two: "deleteMessage e \<noteq> None \<or> dispatch e \<noteq> None \<longrightarrow>
                 removals (calls s') = removals (calls s) @ injectedMessages s"
      using rm refreshForCurrentChannel_removals [OF e1, of e True] by (simp add: s'_def)
    have three: "injectedMessages s' = [(c, MESSAGE_ID_PREFIX @ '':'' @ c)]
             \<and> (receiveMessage e \<noteq> None \<or> dispatch e \<noteq> None \<longrightarrow>
                  injections (calls s') = injections (calls s) @ [(c, MESSAGE_ID_PREFIX @ '':'' @ c)])"
      if h: "getCurrentChannelId e = Some c" "c \<noteq> []"
        "shouldRenderInChannel (config s) c = Inr True"
        "collaborators_return e" "config s = mergeWithDefaults x" for c
    proof -
      obtain es where es: "buildEmbeds (config s1) = Inr es"
        using buildEmbeds_mergeWithDefaults [of x] h(5) cfg by auto
      have g: "shouldRenderInChannel (config s1) c = Inr True" using h(3) cfg by simp
      show ?thesis
        using refreshForCurrentChannel_creates [OF e1 h(1,2) g es h(4)] in1
        by (simp add: s'_def)
    qed
    have disj: "(injectedMessages s' = [] \<and> injections (calls s') = injections (calls s))
       \<or> (\<exists>c. getCurrentChannelId e = Some c \<and> c \<noteq> []
              \<and> shouldRenderInChannel (config s) c = Inr True
              \<and> (injections (calls s') = injections (calls s)
                 \<or> injections (calls s') = injections (calls s) @ [(c, MESSAGE_ID_PREFIX @ '':'' @ c)]))"
      using refreshForCurrentChannel_on_empty [OF e1, of e] in1 cfg
      unfolding s'_def by auto
    have four: "(\<forall>c. getCurrentChannelId e = Some c \<and> c \<noteq> [] \<longrightarrow>
                shouldRenderInChannel (config s) c \<noteq> Inr True) \<longrightarrow>
             injectedMessages s' = [] \<and> injections (calls s') = injections (calls s)"
      using disj by blast
    have five: "injections (calls s') = injections (calls s)
         \<or> (\<exists>c. getCurrentChannelId e = Some c
                \<and> injections (calls s') = injections (calls s) @ [(c, MESSAGE_ID_PREFIX @ '':'' @ c)])"
      using disj by blast
    obtain tr1 where t1: "calls s1 = calls s @ tr1"
      using engine_step_trace [OF clearInjectedMessages_step [of s e]] c by auto
    obtain tr2 where t2: "calls s' = calls s1 @ tr2"
      using engine_step_trace [OF refreshForCurrentChannel_step [of s1 e True]] by (auto simp: s'_def)
    have i1: "injections tr1 = []" using in1 t1 by simp
    have r2: "removals tr2 = []"
      using refreshForCurrentChannel_removals [OF e1, of e True] t2 by (simp add: s'_def)
    have six: "\<exists>tr1 tr2. calls s' = calls s @ tr1 @ tr2 \<and> injections tr1 = [] \<and> removals tr2 = []"
      using t1 t2 i1 r2 by auto
    have three': "\<forall>c. getCurrentChannelId e = Some c \<and> c \<noteq> []
               \<and> shouldRenderInChannel (config s) c = Inr True
               \<and> collaborators_return e \<and> config s = mergeWithDefaults x \<longrightarrow>
             injectedMessages s' = [(c, MESSAGE_ID_PREFIX @ '':'' @ c)]
             \<and> (receiveMessage e \<noteq> None \<or> dispatch e \<noteq> None \<longrightarrow>
                  injections (calls s') =
                    injections (calls s) @ [(c, MESSAGE_ID_PREFIX @ '':'' @ c)])"
      using three by blast
    have fs: "snd (reapplyFakeMessages e s) = s'" using res by simp
    show ?thesis
      unfolding fs using True one two three' four five six by blast
  qed
qed


text \<open>
  Claim C2 as stated fails: with 11111 selected and items recorded for 11111 and 22222,
  reconciliation removes the entry of 22222 and calls the removal collaborator for it.
\<close>

theorem reapplyFakeMessages_other_channel_counterexample:
  "getCurrentChannelId env0 = Some ''11111''
   \<and> map_of (injectedMessages state_two) ''22222'' = Some ''fake-message-composer:22222''
   \<and> map_of (injectedMessages (snd (reapplyFakeMessages env0 state_two))) ''22222'' = None
   \<and> removals (calls (snd (reapplyFakeMessages env0 state_two))) =
        [(''11111'', ''fake-message-composer:11111''), (''22222'', ''fake-message-composer:22222'')]"
  by (simp add: reapplyFakeMessages_def clearInjectedMessages_def refreshForCurrentChannel_def
      getCurrentChannelId_def state_two_def engine_eval config_eval string_eval host_eval)

text \<open>
  Claim C2, amended, at concrete inputs: a started instance with two items and 11111
  selected, the same instance with a disabled configuration, and an instance that was
  never started.
\<close>

theorem reapplyFakeMessages_retracts_all_witness:
  "map_of (injectedMessages (snd (reapplyFakeMessages env0 state_two))) ''22222'' = None
   \<and> removals (calls (snd (reapplyFakeMessages env0 state_two))) =
        [(''11111'', ''fake-message-composer:11111''), (''22222'', ''fake-message-composer:22222'')]
   \<and> injectedMessages (snd (reapplyFakeMessages env0 state_two)) =
        [(''11111'', ''fake-message-composer:11111'')]
   \<and> injections (calls (snd (reapplyFakeMessages env0 state_two))) =
        [(''11111'', ''fake-message-composer:11111'')]
   \<and> injectedMessages (snd (reapplyFakeMessages env0 (state_two\<lparr>config := cfg_disabled\<rparr>))) = []
   \<and> injections (calls (snd (reapplyFakeMessages env0 (state_two\<lparr>config := cfg_disabled\<rparr>)))) = []
   \<and> reapplyFakeMessages env0 state_one = (Inr (), state_one)"
proof -
  let ?x = "JObj [(''discordId'', JStr ''123456789012345''), (''messageContent'', JStr ''hello'')]"
  let ?y = "JObj [(''enabled'', JBool False), (''discordId'', JStr ''123456789012345''),
                  (''messageContent'', JStr ''hello'')]"
  let ?off = "state_two\<lparr>config := cfg_disabled\<rparr>"
  have a: "started state_two" "\<not> started state_one" "calls state_two = []"
    "injectedMessages state_two =
       [(''11111'', ''fake-message-composer:11111''), (''22222'', ''fake-message-composer:22222'')]"
    "config state_two = mergeWithDefaults ?x"
    "started ?off" "calls ?off = []" "config ?off = mergeWithDefaults ?y"
    by (simp_all add: state_two_def state_one_def init_state_def cfg_any_def cfg_disabled_def)
  have b: "getCurrentChannelId env0 = Some ''11111''" "deleteMessage env0 \<noteq> None"
    "receiveMessage env0 \<noteq> None"
    by (simp_all add: getCurrentChannelId_def env0_def)
  have c: "fst (reapplyFakeMessages env0 state_two) = Inr ()"
    "fst (reapplyFakeMessages env0 ?off) = Inr ()"
    by (simp_all add: reapplyFakeMessages_def clearInjectedMessages_def a(1,4) state_two_def
        dispatchMessageDelete_def host_call_def env0_def)
  have g: "shouldRenderInChannel (mergeWithDefaults ?x) ''11111'' = Inr True"
    "shouldRenderInChannel (mergeWithDefaults ?y) ''11111'' = Inr False"
    by (simp_all add: shouldRenderInChannel_def config_eval string_eval)
  show ?thesis
    using reapplyFakeMessages_retracts_all [of state_two env0 ?x]
      reapplyFakeMessages_retracts_all [of ?off env0 ?y]
      reapplyFakeMessages_retracts_all [of state_one env0]
    by (simp add: a b c g collaborators_return_env0 MESSAGE_ID_PREFIX_def)
qed

lemma unsubscribeFromChannelChanges_frame:
  "injectedMessages (unsubscribeFromChannelChanges e s) = injectedMessages s
   \<and> persistTimer (unsubscribeFromChannelChanges e s) = persistTimer s
   \<and> timers (unsubscribeFromChannelChanges e s) = timers s
   \<and> started (unsubscribeFromChannelChanges e s) = started s
   \<and> removals (calls (unsubscribeFromChannelChanges e s)) = removals (calls s)"
  by (cases "unsubscribe_result e")
     (simp_all add: unsubscribeFromChannelChanges_def host_call_def log_call_def warn_def Let_def)

lemma undo_loop_frame:
  "injectedMessages (undo_loop e n s) = injectedMessages s
   \<and> persistTimer (undo_loop e n s) = persistTimer s
   \<and> timers (undo_loop e n s) = timers s
   \<and> started (undo_loop e n s) = started s
   \<and> removals (calls (undo_loop e n s)) = removals (calls s)"
proof (induction n arbitrary: s)
  case 0
  show ?case by simp
next
  case (Suc n)
  show ?case
    by (cases "undo_result e")
       (simp_all add: Suc.IH host_call_def log_call_def warn_def)
qed

lemma unpatchAll_frame:
  "injectedMessages (unpatchAll e s) = injectedMessages s
   \<and> persistTimer (unpatchAll e s) = persistTimer s
   \<and> timers (unpatchAll e s) = timers s
   \<and> started (unpatchAll e s) = started s
   \<and> removals (calls (unpatchAll e s)) = removals (calls s)"
  by (simp add: unpatchAll_def undo_loop_frame)

lemma stop_before_clear:
  "stop e s = (case clearInjectedMessages e (before_clear e s) of
                 (Inl err, s5) \<Rightarrow> (Inl err, s5)
               | (Inr u, s5) \<Rightarrow> (Inr (), clearPersistTimer s5))"
  by (simp add: stop_def before_clear_def Let_def)

lemma before_clear_frame:
  "injectedMessages (before_clear e s) = injectedMessages s
   \<and> persistTimer (before_clear e s) = persistTimer s
   \<and> timers (before_clear e s) = timers s
   \<and> \<not> started (before_clear e s)
   \<and> removals (calls (before_clear e s)) = removals (calls s)"
  by (simp add: before_clear_def unpatchAll_frame unsubscribeFromChannelChanges_frame
      log_info_def log_call_def)

lemma delete_each_returns:
  "collaborators_return e \<Longrightarrow> fst (delete_each e xs s) = Inr ()"
proof (induction xs arbitrary: s)
  case Nil
  show ?case by simp
next
  case (Cons x xs)
  obtain c m where x: "x = (c, m)" by (cases x)
  obtain r s1 where d: "dispatchMessageDelete e c m s = (r, s1)" by (cases "dispatchMessageDelete e c m s")
  have "r = Inr ()" using dispatchMessageDelete_returns [OF Cons.prems, of c m s] d by simp
  then show ?case using x d Cons.IH [OF Cons.prems, of s1] by simp
qed

lemma clearInjectedMessages_completes:
  "collaborators_return e \<Longrightarrow> fst (clearInjectedMessages e s) = Inr ()"
  using delete_each_returns [of e "injectedMessages s" s]
  by (cases "delete_each e (injectedMessages s) s") (auto simp: clearInjectedMessages_def)

lemma clearPersistTimer_frame:
  "injectedMessages (clearPersistTimer s) = injectedMessages s
   \<and> calls (clearPersistTimer s) = calls s \<and> started (clearPersistTimer s) = started s"
  by (simp add: clearPersistTimer_def split: option.splits)

lemma clearPersistTimer_cancels:
  "persistTimer s = Some h \<Longrightarrow> h \<noteq> 0 \<Longrightarrow>
     persistTimer (clearPersistTimer s) = None \<and> h \<notin> fst ` set (timers (clearPersistTimer s))"
  by (auto simp: clearPersistTimer_def)

lemma stop_completes:
  assumes "collaborators_return e"
  shows "fst (stop e s) = Inr ()
     \<and> injectedMessages (snd (stop e s)) = []
     \<and> \<not> started (snd (stop e s))
     \<and> (deleteMessage e \<noteq> None \<or> dispatch e \<noteq> None \<longrightarrow>
           removals (calls (snd (stop e s))) = removals (calls s) @ injectedMessages s)
     \<and> (\<forall>h. persistTimer s = Some h \<and> h \<noteq> 0 \<longrightarrow>
           persistTimer (snd (stop e s)) = None \<and> h \<notin> fst ` set (timers (snd (stop e s))))"
proof -
  let ?b = "before_clear e s"
  obtain r s5 where c: "clearInjectedMessages e ?b = (r, s5)" by (cases "clearInjectedMessages e ?b")
  have ok: "fst (clearInjectedMessages e ?b) = Inr ()"
    using clearInjectedMessages_completes [OF assms] .
  then have r: "r = Inr ()" using c by simp
  have st: "engine_step ?b s5" using clearInjectedMessages_step [of ?b e] c by simp
  have fr: "persistTimer s5 = persistTimer s" "timers s5 = timers s" "\<not> started s5"
    using st before_clear_frame [of e s] by (simp_all add: engine_step_def)
  have e5: "injectedMessages s5 = []"
    and d5: "fst (delete_each e (injectedMessages ?b) ?b) = Inr ()"
    and c5: "calls s5 = calls (snd (delete_each e (injectedMessages ?b) ?b))"
    using clearInjectedMessages_returns [OF ok] c by simp_all
  have rm: "deleteMessage e \<noteq> None \<or> dispatch e \<noteq> None \<Longrightarrow>
            removals (calls s5) = removals (calls s) @ injectedMessages s"
    using delete_each_removals [OF _ d5] c5 before_clear_frame [of e s] by simp
  have res: "stop e s = (Inr (), clearPersistTimer s5)"
    using c r by (simp add: stop_before_clear)
  have tm: "\<forall>h. persistTimer s = Some h \<and> h \<noteq> 0 \<longrightarrow>
           persistTimer (clearPersistTimer s5) = None \<and> h \<notin> fst ` set (timers (clearPersistTimer s5))"
    using clearPersistTimer_cancels [of s5] fr(1) by auto
  have a: "fst (stop e s) = Inr ()" "injectedMessages (snd (stop e s)) = []"
    "\<not> started (snd (stop e s))" "calls (snd (stop e s)) = calls s5"
    using res e5 fr(3) clearPersistTimer_frame [of s5] by simp_all
  have b: "\<forall>h. persistTimer s = Some h \<and> h \<noteq> 0 \<longrightarrow>
           persistTimer (snd (stop e s)) = None \<and> h \<notin> fst ` set (timers (snd (stop e s)))"
    using tm res by auto
  show ?thesis using a b rm by auto
qed

text \<open>
  Claim C7 at a failing input: two channels hold items, a persistence timer is pending and
  the removal collaborator throws. \<^verbatim>\<open>stop\<close> throws, the table still holds both entries
  and the timer is still pending. (\<open>stop_completes\<close> above is the behaviour when the
  collaborator returns; \<^verbatim>\<open>unsubscribeFromChannelChanges\<close> and \<^verbatim>\<open>unpatchAll\<close> guard their
  collaborator calls, \<^verbatim>\<open>clearInjectedMessages\<close> does not.)
\<close>

theorem stop_raises_when_removal_raises:
  "fst (stop env_delete_throws state_busy) = Inl (HostError ''delete failed'')
   \<and> injectedMessages (snd (stop env_delete_throws state_busy)) =
        [(''11111'', ''fake-message-composer:11111''), (''22222'', ''fake-message-composer:22222'')]
   \<and> timers (snd (stop env_delete_throws state_busy)) = [(1, 250)]
   \<and> persistTimer (snd (stop env_delete_throws state_busy)) = Some 1"
  by (simp add: stop_def unsubscribeFromChannelChanges_def unpatchAll_def clearInjectedMessages_def
      dispatchMessageDelete_def env_delete_throws_def state_busy_def state_two_def
      config_eval host_eval Let_def)

subsection \<open>Debounced persistence\<close>

lemma writes_simps [simp]:
  "writes [] = []"
  "writes (xs @ ys) = writes xs @ writes ys"
  "writes (c # cs) = (case written_of c of None \<Rightarrow> writes cs | Some v \<Rightarrow> v # writes cs)"
  by (simp_all add: writes_def List.map_filter_def split: option.splits)

lemma writes_no_write: "filter is_write tr = [] \<Longrightarrow> writes tr = []"
proof (induction tr)
  case Nil
  show ?case by simp
next
  case (Cons c tr)
  then show ?case by (cases c) (simp_all split: if_splits)
qed

lemma engine_step_writes: "engine_step s s' \<Longrightarrow> writes (calls s') = writes (calls s)"
  by (auto simp: engine_step_def writes_no_write)

lemma length_one: "length xs = 1 \<Longrightarrow> xs = [hd xs]"
  by (cases xs) simp_all

lemma pending_persistD:
  assumes "pending_persist s"
  shows "\<exists>h. timers s = [(h, clock s + PERSIST_DEBOUNCE_MS)] \<and> persistTimer s = Some h \<and> h \<noteq> 0"
proof -
  have "timers s = [hd (timers s)]" using assms by (simp add: pending_persist_def length_one)
  then have "timers s = [(fst (hd (timers s)), clock s + PERSIST_DEBOUNCE_MS)]"
    using assms by (metis pending_persist_def prod.collapse)
  then show ?thesis using assms by (auto simp: pending_persist_def)
qed

lemma owned_timers_cases:
  assumes "owned_timers s"
  obtains (quiet) "timers s = []"
  | (single) h due where "timers s = [(h, due)]" "persistTimer s = Some h" "h \<noteq> 0"
proof (cases "timers s = []")
  case True
  then show ?thesis using quiet by simp
next
  case False
  then have l: "length (timers s) = 1" and p: "persistTimer s = Some (fst (hd (timers s)))"
    and n: "fst (hd (timers s)) \<noteq> 0"
    using assms by (simp_all add: owned_timers_def)
  have "timers s = [(fst (hd (timers s)), snd (hd (timers s)))]"
    using length_one [OF l] by simp
  then show ?thesis using single p n by blast
qed

lemma pending_persist_owned: "pending_persist s \<Longrightarrow> owned_timers s"
  by (simp add: pending_persist_def owned_timers_def)

lemma enqueuePersist_replaces:
  assumes "owned_timers s"
  shows "timers (enqueuePersist s) = [(next_handle s, clock s + PERSIST_DEBOUNCE_MS)]
     \<and> persistTimer (enqueuePersist s) = Some (next_handle s)
     \<and> next_handle (enqueuePersist s) = next_handle s + 1
     \<and> clock (enqueuePersist s) = clock s
     \<and> calls (enqueuePersist s) = calls s
     \<and> config (enqueuePersist s) = config s"
  using assms
proof (cases rule: owned_timers_cases)
  case quiet
  then show ?thesis
    by (simp add: enqueuePersist_def clearPersistTimer_def Let_def split: option.splits)
next
  case (single h due)
  then show ?thesis
    by (simp add: enqueuePersist_def clearPersistTimer_def Let_def)
qed

lemma enqueuePersist_pending:
  assumes "owned_timers s" "0 < next_handle s"
  shows "pending_persist (enqueuePersist s)"
  using enqueuePersist_replaces [OF assms(1)] assms(2) by (simp add: pending_persist_def)

lemma owned_timers_config [simp]: "owned_timers (s\<lparr>config := c\<rparr>) = owned_timers s"
  by (simp add: owned_timers_def)

lemma pending_persist_step: "engine_step s s' \<Longrightarrow> pending_persist s \<Longrightarrow> pending_persist s'"
  by (simp add: engine_step_def pending_persist_def)

lemma applyConfig_schedules:
  assumes "owned_timers s" "0 < next_handle s" "\<not> skipPersist opts"
  shows "pending_persist (snd (applyConfig e n opts s))
     \<and> 0 < next_handle (snd (applyConfig e n opts s))
     \<and> writes (calls (snd (applyConfig e n opts s))) = writes (calls s)
     \<and> config (snd (applyConfig e n opts s)) = mergeWithDefaults (nco n (config s))"
proof -
  let ?s1 = "s\<lparr>config := mergeWithDefaults (nco n (config s))\<rparr>"
  let ?s2 = "enqueuePersist ?s1"
  have pre: "owned_timers ?s1" using assms(1) by simp
  have p2: "pending_persist ?s2" using enqueuePersist_pending [OF pre] assms(2) by simp
  have f2: "next_handle ?s2 = next_handle s + 1" "calls ?s2 = calls s"
    "config ?s2 = mergeWithDefaults (nco n (config s))"
    using enqueuePersist_replaces [OF pre] by simp_all
  show ?thesis
  proof (cases "skipReload opts")
    case True
    then show ?thesis using assms(3) p2 f2 by (simp add: applyConfig_def Let_def)
  next
    case False
    obtain r s3 where re: "reapplyFakeMessages e ?s2 = (r, s3)" by (cases "reapplyFakeMessages e ?s2")
    have st: "engine_step ?s2 s3" using reapplyFakeMessages_step [of ?s2 e] re by simp
    have "pending_persist s3" using pending_persist_step [OF st p2] .
    moreover have "next_handle s3 = next_handle s + 1" "config s3 = mergeWithDefaults (nco n (config s))"
      using st f2 by (simp_all add: engine_step_def)
    moreover have "writes (calls s3) = writes (calls s)"
      using engine_step_writes [OF st] f2 by simp
    moreover have "snd (applyConfig e n opts s) = s3"
      using False assms(3) re by (cases r) (simp_all add: applyConfig_def Let_def)
    ultimately show ?thesis by simp
  qed
qed

lemma advance_quiet:
  "timers s = [] \<Longrightarrow> advance e gap s = s\<lparr>clock := clock s + gap, timers := []\<rparr>"
  by (simp add: advance_def Let_def)

lemma advance_early:
  assumes "pending_persist s" "gap < PERSIST_DEBOUNCE_MS"
  shows "advance e gap s = s\<lparr>clock := clock s + gap, timers := timers s\<rparr>"
proof -
  obtain h where "timers s = [(h, clock s + PERSIST_DEBOUNCE_MS)]"
    using pending_persistD [OF assms(1)] by blast
  then show ?thesis using assms(2) by (simp add: advance_def Let_def)
qed

lemma advance_fires:
  assumes "pending_persist s" "PERSIST_DEBOUNCE_MS \<le> d" "storage_set e = Some f"
  shows "writes (calls (advance e d s)) = writes (calls s) @ [config s]
         \<and> timers (advance e d s) = []"
proof -
  obtain h where "timers s = [(h, clock s + PERSIST_DEBOUNCE_MS)]"
    using pending_persistD [OF assms(1)] by blast
  then show ?thesis
    using assms(2,3)
    by (cases "f (config s)")
       (simp_all add: advance_def Let_def persist_callback_def host_call_def log_call_def warn_def)
qed

lemma update_step:
  assumes "timers s = [] \<or> (pending_persist s \<and> fst u < PERSIST_DEBOUNCE_MS)"
    and "0 < next_handle s" "\<not> skipPersist (snd (snd u))"
  shows "pending_persist (snd (updateConfig e (fst (snd u)) (snd (snd u)) (advance e (fst u) s)))
     \<and> 0 < next_handle (snd (updateConfig e (fst (snd u)) (snd (snd u)) (advance e (fst u) s)))
     \<and> writes (calls (snd (updateConfig e (fst (snd u)) (snd (snd u)) (advance e (fst u) s))))
         = writes (calls s)"
proof -
  let ?a = "advance e (fst u) s"
  have a: "?a = s\<lparr>clock := clock s + fst u, timers := timers s\<rparr>"
    using assms(1) advance_quiet [of s e "fst u"] advance_early [of s "fst u" e] by auto
  have "owned_timers s" using assms(1) pending_persist_owned by (auto simp: owned_timers_def)
  then have t: "owned_timers ?a" using a by (simp add: owned_timers_def)
  have n: "0 < next_handle ?a" "calls ?a = calls s" using a assms(2) by simp_all
  show ?thesis
    using applyConfig_schedules [OF t n(1) assms(3)] n(2)
    by (simp add: updateConfig_def)
qed

lemma run_updates_pending:
  assumes "pending_persist s" "0 < next_handle s"
    and "\<forall>u\<in>set ups. fst u < PERSIST_DEBOUNCE_MS \<and> \<not> skipPersist (snd (snd u))"
  shows "pending_persist (run_updates e ups s) \<and> writes (calls (run_updates e ups s)) = writes (calls s)"
  using assms
proof (induction ups arbitrary: s)
  case Nil
  then show ?case by simp
next
  case (Cons u ups)
  let ?s1 = "snd (updateConfig e (fst (snd u)) (snd (snd u)) (advance e (fst u) s))"
  have st: "pending_persist ?s1 \<and> 0 < next_handle ?s1 \<and> writes (calls ?s1) = writes (calls s)"
    using update_step [of s u e] Cons.prems by simp
  have "pending_persist (run_updates e ups ?s1)
        \<and> writes (calls (run_updates e ups ?s1)) = writes (calls ?s1)"
    using Cons.IH [of ?s1] st Cons.prems(3) by simp
  then show ?case using st by simp
qed

text \<open>
  Claim C8. Start from a state with no pending timeout (and a host whose timer handles
  are positive) and a storage that has \<^verbatim>\<open>set\<close>. Make one or more \<^verbatim>\<open>updateConfig\<close> calls that
  do not skip persistence, each later one less than the debounce period after the one
  before. Then exactly one timeout is pending, nothing has been written during the burst,
  and once a full debounce period has passed there has been exactly one write, of the
  configuration left by the last call, and no timeout remains. Every \<^verbatim>\<open>enqueuePersist\<close>
  from a state whose only pending timeout is the plugin's own leaves exactly one, the new
  one.
\<close>

theorem debounce_latest_write_wins:
  assumes "timers s = []" "0 < next_handle s"
    and "\<not> skipPersist (snd (snd first))"
    and "\<forall>u\<in>set rest. fst u < PERSIST_DEBOUNCE_MS \<and> \<not> skipPersist (snd (snd u))"
    and "storage_set e = Some f" and "PERSIST_DEBOUNCE_MS \<le> d"
  shows "length (timers (run_updates e (first # rest) s)) = 1
     \<and> writes (calls (run_updates e (first # rest) s)) = writes (calls s)
     \<and> writes (calls (advance e d (run_updates e (first # rest) s))) =
          writes (calls s) @ [config (run_updates e (first # rest) s)]
     \<and> timers (advance e d (run_updates e (first # rest) s)) = []
     \<and> (\<forall>s0. owned_timers s0 \<longrightarrow>
           timers (enqueuePersist s0) = [(next_handle s0, clock s0 + PERSIST_DEBOUNCE_MS)]
           \<and> persistTimer (enqueuePersist s0) = Some (next_handle s0))"
proof -
  let ?s1 = "snd (updateConfig e (fst (snd first)) (snd (snd first)) (advance e (fst first) s))"
  have st: "pending_persist ?s1 \<and> 0 < next_handle ?s1 \<and> writes (calls ?s1) = writes (calls s)"
    using update_step [of s first e] assms(1,2,3) by simp
  have p: "pending_persist (run_updates e rest ?s1)
        \<and> writes (calls (run_updates e rest ?s1)) = writes (calls ?s1)"
    using run_updates_pending [of ?s1 rest e] st assms(4) by simp
  have one: "length (timers (run_updates e rest ?s1)) = 1"
    using p pending_persistD by fastforce
  have fire: "writes (calls (advance e d (run_updates e rest ?s1))) =
                writes (calls (run_updates e rest ?s1)) @ [config (run_updates e rest ?s1)]
              \<and> timers (advance e d (run_updates e rest ?s1)) = []"
    using advance_fires [OF _ assms(6,5)] p by blast
  have rep: "\<forall>s0. owned_timers s0 \<longrightarrow>
           timers (enqueuePersist s0) = [(next_handle s0, clock s0 + PERSIST_DEBOUNCE_MS)]
           \<and> persistTimer (enqueuePersist s0) = Some (next_handle s0)"
    using enqueuePersist_replaces by blast
  show ?thesis using st p one fire rep by simp
qed

lemma burst_config:
  "get_prop (config (run_updates env0 burst init_state)) ''messageContent'' = JStr ''abc''"
  by (simp add: burst_def persist_opts_def updateConfig_def applyConfig_def reapplyFakeMessages_def
      enqueuePersist_def clearPersistTimer_def advance_def PERSIST_DEBOUNCE_MS_def Let_def
      config_eval)

text \<open>
  Claim C8 at a concrete input: three updates of messageContent at 0, 100 and 349 ms.
\<close>

theorem debounce_latest_write_wins_witness:
  "writes (calls (advance env0 250 (run_updates env0 burst init_state))) =
     [config (run_updates env0 burst init_state)]
   \<and> length (timers (run_updates env0 burst init_state)) = 1
   \<and> get_prop (config (run_updates env0 burst init_state)) ''messageContent'' = JStr ''abc''"
proof -
  have b: "burst = (0, JObj [(''messageContent'', JStr ''a'')], persist_opts) #
            [(100, JObj [(''messageContent'', JStr ''ab'')], persist_opts),
             (249, JObj [(''messageContent'', JStr ''abc'')], persist_opts)]"
    by (simp add: burst_def)
  have h: "timers init_state = []" "0 < next_handle init_state" "calls init_state = []"
    by (simp_all add: init_state_def)
  have f: "storage_set env0 = Some (\<lambda>c. None)" by (simp add: env0_def)
  show ?thesis
    unfolding b
    using debounce_latest_write_wins [OF h(1,2) _ _ f, of
        "(0, JObj [(''messageContent'', JStr ''a'')], persist_opts)"
        "[(100, JObj [(''messageContent'', JStr ''ab'')], persist_opts),
          (249, JObj [(''messageContent'', JStr ''abc'')], persist_opts)]" 250]
      burst_config [unfolded b]
    by (simp add: persist_opts_def PERSIST_DEBOUNCE_MS_def h(3))
qed

end
